theory Spec2Isabelle
  imports Complex_Main
begin

section \<open>Data model\<close>

text \<open>
  The layout engine of \<^verbatim>\<open>frontend/src/utils/layoutEngine.ts\<close>. A \<^verbatim>\<open>Person\<close> carries the
  fields the engine reads. The graph \<^verbatim>\<open>Record<string, Person>\<close> is an association
  list: \<^verbatim>\<open>Object.values(people)\<close> is \<open>map snd people\<close>, in the object's iteration order,
  and the keys of the list are the object's own keys. An optional field is an \<open>option\<close>,
  \<open>None\<close> where the source has \<^verbatim>\<open>undefined\<close>. JavaScript numbers are modelled as reals:
  every width and gap is an even integer, so each \<^verbatim>\<open>/ 2\<close> is exact and every coordinate
  is an integer.

  The model has two parts. The first part, up to \<open>computeLayout\<close>, takes \<^verbatim>\<open>people[k]\<close> to
  be \<open>map_of people k\<close>, the lookup among the object's own keys. The second part, whose
  names end in \<open>_js\<close>, follows the same source with the lookup of the language, which
  also finds the members that the object inherits from \<^verbatim>\<open>Object.prototype\<close>, and with
  the exception that the engine then raises. The two parts agree on every graph in which
  no id names an inherited member (lemma \<open>computeLayout_js_own\<close>).
\<close>

datatype Gender = Male | Female

record Person =
  pid :: string
  name :: string
  gender :: Gender
  spouseId :: "string option"
  childrenIds :: "string list"

type_synonym People = "(string \<times> Person) list"

record LayoutNode =
  person :: Person
  nx :: real
  ny :: real
  width :: real
  height :: real
  isSpouse :: bool
  isChild :: bool
  isParent :: bool
  isFocused :: bool
  generation :: int

datatype ConnectionType = Spouse | ParentChild

record Point =
  pt_x :: real
  pt_y :: real

record Connection =
  cid :: string
  ctype :: ConnectionType
  from_pt :: Point
  to_pt :: Point
  fromId :: string
  toId :: string

record Bounds =
  minX :: real
  maxX :: real
  minY :: real
  maxY :: real
  bwidth :: real
  bheight :: real

record LayoutResult =
  nodes :: "LayoutNode list"
  connections :: "Connection list"
  bounds :: Bounds
  focusedNode :: "LayoutNode option"

section \<open>Configuration\<close>

definition MIN_NODE_WIDTH :: real where "MIN_NODE_WIDTH = 140"
definition MAX_NODE_WIDTH :: real where "MAX_NODE_WIDTH = 220"
definition NODE_HEIGHT :: real where "NODE_HEIGHT = 90"
definition CHAR_WIDTH :: real where "CHAR_WIDTH = 8"
definition PADDING :: real where "PADDING = 60"
definition HORIZONTAL_GAP :: real where "HORIZONTAL_GAP = 60"
definition VERTICAL_GAP :: real where "VERTICAL_GAP = 130"
definition SPOUSE_GAP :: real where "SPOUSE_GAP = 20"
definition MAX_LAYERS_UP :: int where "MAX_LAYERS_UP = 4"
definition MAX_LAYERS_DOWN :: int where "MAX_LAYERS_DOWN = 4"

section \<open>Widths and lookups\<close>

text \<open>\<^verbatim>\<open>name.length\<close> counts the code units of the string, here the characters of the list.\<close>

definition calculateNodeWidth :: "string \<Rightarrow> real" where
  "calculateNodeWidth nm =
     (let textWidth = real (length nm) * CHAR_WIDTH + PADDING
      in max MIN_NODE_WIDTH (min MAX_NODE_WIDTH textWidth))"

definition calculateCoupleWidth :: "Person \<Rightarrow> Person option \<Rightarrow> real" where
  "calculateCoupleWidth p spouse =
     (let personWidth = calculateNodeWidth (name p)
      in case spouse of
           Some s \<Rightarrow> personWidth + calculateNodeWidth (name s) + SPOUSE_GAP
         | None \<Rightarrow> personWidth)"

text \<open>
  \<^verbatim>\<open>person.spouseId && people[person.spouseId]\<close>: an undefined and an empty
  \<^verbatim>\<open>spouseId\<close> are both falsy, and so is a key the graph does not hold.
\<close>

definition getSpouse :: "Person \<Rightarrow> People \<Rightarrow> Person option" where
  "getSpouse p people =
     (case spouseId p of
        None \<Rightarrow> None
      | Some sid \<Rightarrow> if sid = [] then None else map_of people sid)"

text \<open>The scan of \<^verbatim>\<open>findParents\<close>, one step per value of the graph.\<close>

definition findParents_step :: "string \<Rightarrow> Person list \<Rightarrow> Person \<Rightarrow> Person list" where
  "findParents_step personId parents p =
     (if personId \<in> set (childrenIds p)
      then (if \<not> list_ex (\<lambda>q. spouseId q = Some (pid p)) parents
            then parents @ [p] else parents)
      else parents)"

definition findParents :: "string \<Rightarrow> People \<Rightarrow> Person list" where
  "findParents personId people = foldl (findParents_step personId) [] (map snd people)"

section \<open>Subtree width\<close>

text \<open>
  The loop that adds the children's widths, with \<^verbatim>\<open>HORIZONTAL_GAP\<close> after every child
  but the last.
\<close>

fun childrenWidth_loop :: "real list \<Rightarrow> real" where
  "childrenWidth_loop [] = 0"
| "childrenWidth_loop [w] = w"
| "childrenWidth_loop (w # ws) = w + HORIZONTAL_GAP + childrenWidth_loop ws"

text \<open>
  \<^verbatim>\<open>calculateSubtreeWidth\<close> mutates the set it is given; the model returns the width
  together with the set as the call leaves it. Every child is called on a fresh copy
  \<^verbatim>\<open>new Set(visited)\<close>, whose final contents the caller drops.
\<close>

function calculateSubtreeWidth ::
  "string \<Rightarrow> People \<Rightarrow> int \<Rightarrow> int \<Rightarrow> string set \<Rightarrow> real \<times> string set" where
  "calculateSubtreeWidth personId people maxDepth currentDepth visited =
     (if currentDepth > maxDepth then (0, visited)
      else if personId \<in> visited then (0, visited)
      else
        let visited1 = insert personId visited in
        case map_of people personId of
          None \<Rightarrow> (0, visited1)
        | Some p \<Rightarrow>
            let spouse = getSpouse p people;
                visited2 = (case spouse of Some s \<Rightarrow> insert (pid s) visited1 | None \<Rightarrow> visited1);
                coupleWidth = calculateCoupleWidth p spouse
            in if childrenIds p = [] \<or> currentDepth \<ge> maxDepth then (coupleWidth, visited2)
               else
                 let validChildren =
                       filter (\<lambda>c. map_of people c \<noteq> None \<and> c \<notin> visited2) (childrenIds p);
                     childrenWidth =
                       childrenWidth_loop
                         (map (\<lambda>childId.
                                 fst (calculateSubtreeWidth childId people maxDepth
                                        (currentDepth + 1) visited2))
                              validChildren)
                 in (max coupleWidth childrenWidth, visited2))"
  by pat_completeness auto
termination
  by (relation "measure (\<lambda>(personId, people, maxDepth, currentDepth, visited).
                  nat (maxDepth + 1 - currentDepth))") auto

declare calculateSubtreeWidth.simps [simp del]

section \<open>Layout state\<close>

text \<open>
  \<^verbatim>\<open>computeLayout\<close> keeps three mutable locals that its inner functions update:
  the \<^verbatim>\<open>nodes\<close> and \<^verbatim>\<open>connections\<close> arrays and the \<^verbatim>\<open>positioned\<close> set. The model
  threads them through every call as a record.
\<close>

record LayoutState =
  s_nodes :: "LayoutNode list"
  s_connections :: "Connection list"
  positioned :: "string set"

record CoupleExtent =
  leftX :: real
  rightX :: real
  centerX :: real

definition createNode ::
  "string \<Rightarrow> Person \<Rightarrow> real \<Rightarrow> real \<Rightarrow> int \<Rightarrow> bool \<Rightarrow> bool \<Rightarrow> bool \<Rightarrow> LayoutNode" where
  "createNode focusedPersonId p x y gen isSp isCh isPar =
     \<lparr> person = p, nx = x, ny = y, width = calculateNodeWidth (name p),
       height = NODE_HEIGHT, isSpouse = isSp, isChild = isCh, isParent = isPar,
       isFocused = (pid p = focusedPersonId), generation = gen \<rparr>"

text \<open>
  The guarded push that \<^verbatim>\<open>positionCouple\<close> repeats for the left person, the right
  person and the single person: \<^verbatim>\<open>if (!positioned.has(p.id)) { nodes.push(...);
  positioned.add(p.id) }\<close>.
\<close>

definition pushNode ::
  "string \<Rightarrow> Person \<Rightarrow> real \<Rightarrow> real \<Rightarrow> int \<Rightarrow> bool \<Rightarrow> bool \<Rightarrow> bool \<Rightarrow> LayoutState \<Rightarrow> LayoutState"
  where
  "pushNode focusedPersonId p x y gen isSp isCh isPar s =
     (if pid p \<notin> positioned s
      then s\<lparr> s_nodes := s_nodes s @ [createNode focusedPersonId p x y gen isSp isCh isPar],
              positioned := insert (pid p) (positioned s) \<rparr>
      else s)"

definition pushConnection :: "Connection \<Rightarrow> LayoutState \<Rightarrow> LayoutState" where
  "pushConnection c s = s\<lparr> s_connections := s_connections s @ [c] \<rparr>"

definition spouseConnection ::
  "Person \<Rightarrow> Person \<Rightarrow> real \<Rightarrow> real \<Rightarrow> real \<Rightarrow> real \<Rightarrow> real \<Rightarrow> Connection" where
  "spouseConnection leftPerson rightPerson lX leftWidth rX rightWidth cY =
     \<lparr> cid = ''spouse-'' @ pid leftPerson @ ''-'' @ pid rightPerson,
       ctype = Spouse,
       from_pt = \<lparr> pt_x = lX + leftWidth / 2, pt_y = cY \<rparr>,
       to_pt = \<lparr> pt_x = rX - rightWidth / 2, pt_y = cY \<rparr>,
       fromId = pid leftPerson, toId = pid rightPerson \<rparr>"

definition parentChildConnection ::
  "string \<Rightarrow> string \<Rightarrow> real \<Rightarrow> real \<Rightarrow> real \<Rightarrow> real \<Rightarrow> Connection" where
  "parentChildConnection parentId childId fromX fromY toX toY =
     \<lparr> cid = ''parent-child-'' @ parentId @ ''-'' @ childId,
       ctype = ParentChild,
       from_pt = \<lparr> pt_x = fromX, pt_y = fromY \<rparr>,
       to_pt = \<lparr> pt_x = toX, pt_y = toY \<rparr>,
       fromId = parentId, toId = childId \<rparr>"

section \<open>Couple placement\<close>

definition positionCouple ::
  "string \<Rightarrow> People \<Rightarrow> Person \<Rightarrow> real \<Rightarrow> real \<Rightarrow> int \<Rightarrow> bool \<Rightarrow> bool \<Rightarrow> LayoutState
     \<Rightarrow> CoupleExtent \<times> LayoutState" where
  "positionCouple focusedPersonId people p cX cY gen isCh isPar s =
     (let spouse = getSpouse p people;
          personWidth = calculateNodeWidth (name p)
      in case (case spouse of Some sp \<Rightarrow> if pid sp \<notin> positioned s then Some sp else None
                             | None \<Rightarrow> None) of
           Some sp \<Rightarrow>
             let spouseWidth = calculateNodeWidth (name sp);
                 totalWidth = personWidth + spouseWidth + SPOUSE_GAP;
                 maleOnLeft = (gender p = Male);
                 leftPerson = (if maleOnLeft then p else sp);
                 rightPerson = (if maleOnLeft then sp else p);
                 leftWidth = calculateNodeWidth (name leftPerson);
                 rightWidth = calculateNodeWidth (name rightPerson);
                 lX = cX - totalWidth / 2 + leftWidth / 2;
                 rX = cX + totalWidth / 2 - rightWidth / 2;
                 s1 = pushNode focusedPersonId leftPerson lX cY gen
                        (pid leftPerson \<noteq> focusedPersonId) isCh isPar s;
                 s2 = pushNode focusedPersonId rightPerson rX cY gen
                        (pid rightPerson \<noteq> focusedPersonId) isCh isPar s1;
                 s3 = pushConnection
                        (spouseConnection leftPerson rightPerson lX leftWidth rX rightWidth cY) s2
             in (\<lparr> leftX = lX - leftWidth / 2, rightX = rX + rightWidth / 2, centerX = cX \<rparr>, s3)
         | None \<Rightarrow>
             let s1 = pushNode focusedPersonId p cX cY gen False isCh isPar s
             in (\<lparr> leftX = cX - personWidth / 2, rightX = cX + personWidth / 2,
                   centerX = cX \<rparr>, s1))"

section \<open>Descendants\<close>

text \<open>
  The \<^verbatim>\<open>for\<close> loop of \<^verbatim>\<open>positionDescendants\<close> over the children and their adjusted
  widths. \<open>recurse\<close> stands for the recursive call on the child's own descendants.
\<close>

fun descendants_loop ::
  "(Person \<Rightarrow> real \<Rightarrow> LayoutState \<Rightarrow> LayoutState) \<Rightarrow> string \<Rightarrow> People \<Rightarrow> Person \<Rightarrow> real \<Rightarrow> real
     \<Rightarrow> real \<Rightarrow> int \<Rightarrow> (Person \<times> real) list \<Rightarrow> real \<Rightarrow> LayoutState \<Rightarrow> LayoutState" where
  "descendants_loop recurse focusedPersonId people parentPerson parentCenterX parentY childY gen
     [] currentX s = s"
| "descendants_loop recurse focusedPersonId people parentPerson parentCenterX parentY childY gen
     ((child, childWidth) # rest) currentX s =
     (let childCenterX = currentX + childWidth / 2;
          (result, s1) = positionCouple focusedPersonId people child childCenterX childY
                           (gen + 1) True False s;
          s2 = (case find (\<lambda>n. pid (person n) = pid child) (s_nodes s1) of
                  Some childNode \<Rightarrow>
                    pushConnection
                      (parentChildConnection (pid parentPerson) (pid child)
                         parentCenterX (parentY + NODE_HEIGHT / 2)
                         (nx childNode) (childY - NODE_HEIGHT / 2)) s1
                | None \<Rightarrow> s1);
          s3 = recurse child (centerX result) s2
      in descendants_loop recurse focusedPersonId people parentPerson parentCenterX parentY childY
           gen rest (currentX + childWidth + HORIZONTAL_GAP) s3)"

lemma descendants_loop_cong [fundef_cong]:
  assumes "items = items'" "s = s'" "cur = cur'"
    and "\<And>c x t. c \<in> fst ` set items' \<Longrightarrow> f c x t = g c x t"
  shows "descendants_loop f fid people parent pcx py cy gen items cur s =
         descendants_loop g fid people parent pcx py cy gen items' cur' s'"
  using assms
proof (induction items arbitrary: items' cur cur' s s')
  case Nil
  then show ?case by simp
next
  case (Cons a items)
  obtain c w where a: "a = (c, w)" by (cases a)
  from Cons.prems have eq: "items' = a # items" "s' = s" "cur' = cur" by simp_all
  have fg: "\<And>x t. f c x t = g c x t" using Cons.prems(4) eq a by simp
  have rest: "\<And>cur2 s2. descendants_loop f fid people parent pcx py cy gen items cur2 s2 =
              descendants_loop g fid people parent pcx py cy gen items cur2 s2"
    by (rule Cons.IH) (use Cons.prems(4) eq in auto)
  show ?case unfolding eq a by (simp add: fg rest Let_def split: prod.splits)
qed

definition childrenOf :: "People \<Rightarrow> Person \<Rightarrow> LayoutState \<Rightarrow> Person list" where
  "childrenOf people parentPerson s =
     filter (\<lambda>c. pid c \<notin> positioned s)
       (List.map_filter (map_of people) (childrenIds parentPerson))"

function positionDescendants ::
  "string \<Rightarrow> People \<Rightarrow> Person \<Rightarrow> real \<Rightarrow> real \<Rightarrow> int \<Rightarrow> int \<Rightarrow> LayoutState \<Rightarrow> LayoutState" where
  "positionDescendants focusedPersonId people parentPerson parentCenterX parentY gen depth s =
     (if depth \<ge> MAX_LAYERS_DOWN then s
      else
        let children = childrenOf people parentPerson s in
        if children = [] then s
        else
          let childY = parentY + VERTICAL_GAP + NODE_HEIGHT;
              childWidths =
                map (\<lambda>child. fst (calculateSubtreeWidth (pid child) people
                                     (MAX_LAYERS_DOWN - depth - 1) 0 (positioned s)))
                    children;
              adjustedWidths =
                map (\<lambda>(w, child). max w (calculateCoupleWidth child (getSpouse child people)))
                    (zip childWidths children);
              totalWidth = foldl (\<lambda>sum w. sum + w) 0 adjustedWidths
                           + (real (length children) - 1) * HORIZONTAL_GAP;
              currentX = parentCenterX - totalWidth / 2
          in descendants_loop
               (\<lambda>child cX s'. positionDescendants focusedPersonId people child cX childY
                                 (gen + 1) (depth + 1) s')
               focusedPersonId people parentPerson parentCenterX parentY childY gen
               (zip children adjustedWidths) currentX s)"
  by pat_completeness auto
termination
  by (relation "measure (\<lambda>(fid, people, parentPerson, pcx, py, gen, depth, s).
                  nat (MAX_LAYERS_DOWN - depth))") auto

declare positionDescendants.simps [simp del]

section \<open>Ancestors\<close>

function positionAncestors ::
  "string \<Rightarrow> People \<Rightarrow> string \<Rightarrow> real \<Rightarrow> real \<Rightarrow> int \<Rightarrow> int \<Rightarrow> LayoutState \<Rightarrow> LayoutState" where
  "positionAncestors focusedPersonId people personId personCenterX personY gen depth s =
     (if depth \<ge> MAX_LAYERS_UP then s
      else
        case filter (\<lambda>p. pid p \<notin> positioned s) (findParents personId people) of
          [] \<Rightarrow> s
        | parent # _ \<Rightarrow>
            let parentY = personY - VERTICAL_GAP - NODE_HEIGHT;
                (result, s1) = positionCouple focusedPersonId people parent personCenterX parentY
                                 (gen - 1) False True s;
                s2 = (case find (\<lambda>n. pid (person n) = personId) (s_nodes s1) of
                        Some childNode \<Rightarrow>
                          pushConnection
                            (parentChildConnection (pid parent) personId
                               (centerX result) (parentY + NODE_HEIGHT / 2)
                               (nx childNode) (personY - NODE_HEIGHT / 2)) s1
                      | None \<Rightarrow> s1)
            in positionAncestors focusedPersonId people (pid parent) (centerX result) parentY
                 (gen - 1) (depth + 1) s2)"
  by pat_completeness auto
termination
  by (relation "measure (\<lambda>(fid, people, personId, pcx, py, gen, depth, s).
                  nat (MAX_LAYERS_UP - depth))") auto

declare positionAncestors.simps [simp del]

section \<open>Top level\<close>

text \<open>
  The bounds loop starts from \<^verbatim>\<open>Infinity\<close> and \<^verbatim>\<open>-Infinity\<close>; \<open>None\<close> is that
  starting value, which \<^verbatim>\<open>isFinite\<close> rejects when no node was seen.
\<close>

definition bounds_step ::
  "(real \<times> real \<times> real \<times> real) option \<Rightarrow> LayoutNode \<Rightarrow> (real \<times> real \<times> real \<times> real) option"
  where
  "bounds_step acc n =
     (let halfWidth = width n / 2; halfHeight = height n / 2
      in case acc of
           None \<Rightarrow> Some (nx n - halfWidth, nx n + halfWidth, ny n - halfHeight, ny n + halfHeight)
         | Some (mnX, mxX, mnY, mxY) \<Rightarrow>
             Some (min mnX (nx n - halfWidth), max mxX (nx n + halfWidth),
                   min mnY (ny n - halfHeight), max mxY (ny n + halfHeight)))"

definition computeBounds :: "LayoutNode list \<Rightarrow> Bounds" where
  "computeBounds ns =
     (case foldl bounds_step None ns of
        None \<Rightarrow> \<lparr> minX = 0, maxX = 0, minY = 0, maxY = 0, bwidth = 0, bheight = 0 \<rparr>
      | Some (mnX, mxX, mnY, mxY) \<Rightarrow>
          \<lparr> minX = mnX, maxX = mxX, minY = mnY, maxY = mxY,
            bwidth = mxX - mnX, bheight = mxY - mnY \<rparr>)"

definition initialState :: LayoutState where
  "initialState = \<lparr> s_nodes = [], s_connections = [], positioned = {} \<rparr>"

text \<open>The state after the three placement passes, for a focused person the graph holds.\<close>

definition layoutPasses :: "string \<Rightarrow> People \<Rightarrow> Person \<Rightarrow> LayoutState" where
  "layoutPasses focusedPersonId people focusedPerson =
     (let (result, s1) = positionCouple focusedPersonId people focusedPerson 0 0 0 False False
                           initialState;
          s2 = positionDescendants focusedPersonId people focusedPerson (centerX result) 0 0 0 s1
      in positionAncestors focusedPersonId people focusedPersonId (centerX result) 0 0 0 s2)"

text \<open>\<^verbatim>\<open>computeLayout\<close> reads only the \<^verbatim>\<open>people\<close> field of the tree it is given.\<close>

definition computeLayout :: "string \<Rightarrow> People \<Rightarrow> LayoutResult" where
  "computeLayout focusedPersonId people =
     (case map_of people focusedPersonId of
        None \<Rightarrow>
          \<lparr> nodes = [], connections = [],
            bounds = \<lparr> minX = 0, maxX = 0, minY = 0, maxY = 0, bwidth = 0, bheight = 0 \<rparr>,
            focusedNode = None \<rparr>
      | Some focusedPerson \<Rightarrow>
          let s = layoutPasses focusedPersonId people focusedPerson
          in \<lparr> nodes = s_nodes s, connections = s_connections s,
               bounds = computeBounds (s_nodes s),
               focusedNode = find isFocused (s_nodes s) \<rparr>)"

section \<open>The graph as a JavaScript object\<close>

text \<open>
  A plain JavaScript object inherits the members of \<^verbatim>\<open>Object.prototype\<close>, and
  \<^verbatim>\<open>people[k]\<close> finds them: for a \<open>k\<close> that is not a key of the graph but names such a
  member, \<^verbatim>\<open>people[k]\<close> is that member and not \<^verbatim>\<open>undefined\<close>. The guards
  \<^verbatim>\<open>if (!person)\<close>, \<^verbatim>\<open>.filter(Boolean)\<close> and \<^verbatim>\<open>people[id] &&\<close> let it pass, and the
  engine goes on with it in the place of a person.

  The definitions above take every \<^verbatim>\<open>people[k]\<close> to look among the object's own keys.
  The definitions of this part follow the same source with the lookup of the language,
  the values that it can give, and the \<^verbatim>\<open>TypeError\<close> that reading a property of
  \<^verbatim>\<open>undefined\<close> raises. Each carries the name of its source function with the suffix
  \<open>_js\<close>. The graph is an object whose prototype is \<^verbatim>\<open>Object.prototype\<close>, as an object
  literal or \<^verbatim>\<open>JSON.parse\<close> builds it.
\<close>

datatype error = TypeError

text \<open>
  What \<^verbatim>\<open>people[k]\<close> can give when it is not \<^verbatim>\<open>undefined\<close>: a person stored in the
  graph, a function inherited from the prototype (with the \<^verbatim>\<open>name\<close> property that the
  function carries), or the prototype object itself, which \<^verbatim>\<open>__proto__\<close> gives.
\<close>

datatype Entry = Stored Person | InheritedFunction string | InheritedObject

text \<open>
  The members of \<^verbatim>\<open>Object.prototype\<close>. Each function's \<^verbatim>\<open>name\<close> is its key, except
  \<^verbatim>\<open>constructor\<close>, which is the function \<^verbatim>\<open>Object\<close>.
\<close>

definition objectPrototype :: "(string \<times> Entry) list" where
  "objectPrototype =
     [(''constructor'', InheritedFunction ''Object''),
      (''__defineGetter__'', InheritedFunction ''__defineGetter__''),
      (''__defineSetter__'', InheritedFunction ''__defineSetter__''),
      (''hasOwnProperty'', InheritedFunction ''hasOwnProperty''),
      (''__lookupGetter__'', InheritedFunction ''__lookupGetter__''),
      (''__lookupSetter__'', InheritedFunction ''__lookupSetter__''),
      (''isPrototypeOf'', InheritedFunction ''isPrototypeOf''),
      (''propertyIsEnumerable'', InheritedFunction ''propertyIsEnumerable''),
      (''toString'', InheritedFunction ''toString''),
      (''valueOf'', InheritedFunction ''valueOf''),
      (''__proto__'', InheritedObject),
      (''toLocaleString'', InheritedFunction ''toLocaleString'')]"

text \<open>\<^verbatim>\<open>people[k]\<close>: the object's own entry, else the inherited member, else nothing.\<close>

definition lookupEntry :: "People \<Rightarrow> string \<Rightarrow> Entry option" where
  "lookupEntry people k =
     (case map_of people k of
        Some p \<Rightarrow> Some (Stored p)
      | None \<Rightarrow> map_of objectPrototype k)"

text \<open>
  The properties that the engine reads. A function and the prototype object have no
  \<^verbatim>\<open>id\<close>, \<^verbatim>\<open>spouseId\<close>, \<^verbatim>\<open>childrenIds\<close> or \<^verbatim>\<open>gender\<close>: reading them gives
  \<^verbatim>\<open>undefined\<close>, here \<open>None\<close>; \<^verbatim>\<open>undefined === 'male'\<close> is false.
\<close>

fun entryId :: "Entry \<Rightarrow> string option" where
  "entryId (Stored p) = Some (pid p)"
| "entryId (InheritedFunction f) = None"
| "entryId InheritedObject = None"

fun entryName :: "Entry \<Rightarrow> string option" where
  "entryName (Stored p) = Some (name p)"
| "entryName (InheritedFunction f) = Some f"
| "entryName InheritedObject = None"

fun entrySpouseId :: "Entry \<Rightarrow> string option" where
  "entrySpouseId (Stored p) = spouseId p"
| "entrySpouseId (InheritedFunction f) = None"
| "entrySpouseId InheritedObject = None"

fun entryChildrenIds :: "Entry \<Rightarrow> string list option" where
  "entryChildrenIds (Stored p) = Some (childrenIds p)"
| "entryChildrenIds (InheritedFunction f) = None"
| "entryChildrenIds InheritedObject = None"

fun entryIsMale :: "Entry \<Rightarrow> bool" where
  "entryIsMale (Stored p) = (gender p = Male)"
| "entryIsMale (InheritedFunction f) = False"
| "entryIsMale InheritedObject = False"

text \<open>
  An id that is \<^verbatim>\<open>undefined\<close> reads \<^verbatim>\<open>"undefined"\<close> where the source uses it as a
  property key or inside a template string.
\<close>

definition idText :: "string option \<Rightarrow> string" where
  "idText i = (case i of Some k \<Rightarrow> k | None \<Rightarrow> ''undefined'')"

text \<open>Sequencing: the first exception ends the computation.\<close>

definition andThen :: "error + 'a \<Rightarrow> ('a \<Rightarrow> error + 'b) \<Rightarrow> error + 'b" where
  "andThen m f = (case m of Inl e \<Rightarrow> Inl e | Inr v \<Rightarrow> f v)"

lemma andThen_cong [fundef_cong]:
  assumes "m = m'" and "\<And>v. m' = Inr v \<Longrightarrow> f v = f' v"
  shows "andThen m f = andThen m' f'"
  using assms by (cases m') (simp_all add: andThen_def)

fun allOf :: "(error + 'a) list \<Rightarrow> error + 'a list" where
  "allOf [] = Inr []"
| "allOf (m # ms) = andThen m (\<lambda>v. andThen (allOf ms) (\<lambda>vs. Inr (v # vs)))"

text \<open>\<^verbatim>\<open>name.length\<close> raises when the name is \<^verbatim>\<open>undefined\<close>.\<close>

definition calculateNodeWidth_js :: "string option \<Rightarrow> error + real" where
  "calculateNodeWidth_js nm =
     (case nm of None \<Rightarrow> Inl TypeError | Some n \<Rightarrow> Inr (calculateNodeWidth n))"

definition calculateCoupleWidth_js :: "Entry \<Rightarrow> Entry option \<Rightarrow> error + real" where
  "calculateCoupleWidth_js p spouse =
     andThen (calculateNodeWidth_js (entryName p)) (\<lambda>personWidth.
       case spouse of
         Some s \<Rightarrow>
           andThen (calculateNodeWidth_js (entryName s)) (\<lambda>spouseWidth.
             Inr (personWidth + spouseWidth + SPOUSE_GAP))
       | None \<Rightarrow> Inr personWidth)"

definition getSpouse_js :: "Entry \<Rightarrow> People \<Rightarrow> Entry option" where
  "getSpouse_js p people =
     (case entrySpouseId p of
        None \<Rightarrow> None
      | Some sid \<Rightarrow> if sid = [] then None else lookupEntry people sid)"

text \<open>
  \<^verbatim>\<open>calculateSubtreeWidth\<close>. The id is \<^verbatim>\<open>undefined\<close> when \<^verbatim>\<open>positionDescendants\<close> passes
  the \<^verbatim>\<open>id\<close> of an inherited member, and \<^verbatim>\<open>people[undefined]\<close> reads the key
  \<^verbatim>\<open>"undefined"\<close>. \<^verbatim>\<open>person.childrenIds.length\<close> raises when the person has no
  \<^verbatim>\<open>childrenIds\<close>.
\<close>

function calculateSubtreeWidth_js ::
  "string option \<Rightarrow> People \<Rightarrow> int \<Rightarrow> int \<Rightarrow> string option set
     \<Rightarrow> error + (real \<times> string option set)" where
  "calculateSubtreeWidth_js personId people maxDepth currentDepth visited =
     (if currentDepth > maxDepth then Inr (0, visited)
      else if personId \<in> visited then Inr (0, visited)
      else
        let visited1 = insert personId visited in
        case lookupEntry people (idText personId) of
          None \<Rightarrow> Inr (0, visited1)
        | Some p \<Rightarrow>
            let spouse = getSpouse_js p people;
                visited2 = (case spouse of Some s \<Rightarrow> insert (entryId s) visited1
                                         | None \<Rightarrow> visited1)
            in andThen (calculateCoupleWidth_js p spouse) (\<lambda>coupleWidth.
                 case entryChildrenIds p of
                   None \<Rightarrow> Inl TypeError
                 | Some ids \<Rightarrow>
                     if ids = [] \<or> currentDepth \<ge> maxDepth then Inr (coupleWidth, visited2)
                     else
                       let validChildren =
                             filter (\<lambda>c. lookupEntry people c \<noteq> None \<and> Some c \<notin> visited2) ids
                       in andThen
                            (allOf (map (\<lambda>childId.
                                           calculateSubtreeWidth_js (Some childId) people maxDepth
                                             (currentDepth + 1) visited2)
                                        validChildren))
                            (\<lambda>rs. Inr (max coupleWidth (childrenWidth_loop (map fst rs)),
                                        visited2))))"
  by pat_completeness auto
termination
  by (relation "measure (\<lambda>(personId, people, maxDepth, currentDepth, visited).
                  nat (maxDepth + 1 - currentDepth))") auto

declare calculateSubtreeWidth_js.simps [simp del]

record Node_js =
  j_person :: Entry
  j_x :: real
  j_y :: real
  j_width :: real
  j_height :: real
  j_isSpouse :: bool
  j_isChild :: bool
  j_isParent :: bool
  j_isFocused :: bool
  j_generation :: int

record Connection_js =
  j_cid :: string
  j_ctype :: ConnectionType
  j_from :: Point
  j_to :: Point
  j_fromId :: "string option"
  j_toId :: "string option"

record Result_js =
  r_nodes :: "Node_js list"
  r_connections :: "Connection_js list"
  r_bounds :: Bounds
  r_focusedNode :: "Node_js option"

record State_js =
  j_nodes :: "Node_js list"
  j_connections :: "Connection_js list"
  j_positioned :: "string option set"

definition createNode_js ::
  "string \<Rightarrow> Entry \<Rightarrow> real \<Rightarrow> real \<Rightarrow> int \<Rightarrow> bool \<Rightarrow> bool \<Rightarrow> bool \<Rightarrow> error + Node_js" where
  "createNode_js focusedPersonId p x y gen isSp isCh isPar =
     andThen (calculateNodeWidth_js (entryName p)) (\<lambda>w.
       Inr \<lparr> j_person = p, j_x = x, j_y = y, j_width = w,
             j_height = NODE_HEIGHT, j_isSpouse = isSp, j_isChild = isCh, j_isParent = isPar,
             j_isFocused = (entryId p = Some focusedPersonId), j_generation = gen \<rparr>)"

definition pushNode_js ::
  "string \<Rightarrow> Entry \<Rightarrow> real \<Rightarrow> real \<Rightarrow> int \<Rightarrow> bool \<Rightarrow> bool \<Rightarrow> bool \<Rightarrow> State_js \<Rightarrow> error + State_js"
  where
  "pushNode_js focusedPersonId p x y gen isSp isCh isPar s =
     (if entryId p \<notin> j_positioned s
      then andThen (createNode_js focusedPersonId p x y gen isSp isCh isPar) (\<lambda>n.
             Inr (s\<lparr> j_nodes := j_nodes s @ [n],
                     j_positioned := insert (entryId p) (j_positioned s) \<rparr>))
      else Inr s)"

definition pushConnection_js :: "Connection_js \<Rightarrow> State_js \<Rightarrow> State_js" where
  "pushConnection_js c s = s\<lparr> j_connections := j_connections s @ [c] \<rparr>"

definition spouseConnection_js ::
  "Entry \<Rightarrow> Entry \<Rightarrow> real \<Rightarrow> real \<Rightarrow> real \<Rightarrow> real \<Rightarrow> real \<Rightarrow> Connection_js" where
  "spouseConnection_js leftPerson rightPerson lX leftWidth rX rightWidth cY =
     \<lparr> j_cid = ''spouse-'' @ idText (entryId leftPerson) @ ''-'' @ idText (entryId rightPerson),
       j_ctype = Spouse,
       j_from = \<lparr> pt_x = lX + leftWidth / 2, pt_y = cY \<rparr>,
       j_to = \<lparr> pt_x = rX - rightWidth / 2, pt_y = cY \<rparr>,
       j_fromId = entryId leftPerson, j_toId = entryId rightPerson \<rparr>"

definition parentChildConnection_js ::
  "string option \<Rightarrow> string option \<Rightarrow> real \<Rightarrow> real \<Rightarrow> real \<Rightarrow> real \<Rightarrow> Connection_js" where
  "parentChildConnection_js parentId childId fromX fromY toX toY =
     \<lparr> j_cid = ''parent-child-'' @ idText parentId @ ''-'' @ idText childId,
       j_ctype = ParentChild,
       j_from = \<lparr> pt_x = fromX, pt_y = fromY \<rparr>,
       j_to = \<lparr> pt_x = toX, pt_y = toY \<rparr>,
       j_fromId = parentId, j_toId = childId \<rparr>"

definition positionCouple_js ::
  "string \<Rightarrow> People \<Rightarrow> Entry \<Rightarrow> real \<Rightarrow> real \<Rightarrow> int \<Rightarrow> bool \<Rightarrow> bool \<Rightarrow> State_js
     \<Rightarrow> error + (CoupleExtent \<times> State_js)" where
  "positionCouple_js focusedPersonId people p cX cY gen isCh isPar s =
     (let spouse = getSpouse_js p people in
      andThen (calculateNodeWidth_js (entryName p)) (\<lambda>personWidth.
        case (case spouse of Some sp \<Rightarrow> if entryId sp \<notin> j_positioned s then Some sp else None
                           | None \<Rightarrow> None) of
          Some sp \<Rightarrow>
            andThen (calculateNodeWidth_js (entryName sp)) (\<lambda>spouseWidth.
              let totalWidth = personWidth + spouseWidth + SPOUSE_GAP;
                  maleOnLeft = entryIsMale p;
                  leftPerson = (if maleOnLeft then p else sp);
                  rightPerson = (if maleOnLeft then sp else p)
              in andThen (calculateNodeWidth_js (entryName leftPerson)) (\<lambda>leftWidth.
                 andThen (calculateNodeWidth_js (entryName rightPerson)) (\<lambda>rightWidth.
                   let lX = cX - totalWidth / 2 + leftWidth / 2;
                       rX = cX + totalWidth / 2 - rightWidth / 2
                   in andThen (pushNode_js focusedPersonId leftPerson lX cY gen
                                 (entryId leftPerson \<noteq> Some focusedPersonId) isCh isPar s)
                        (\<lambda>s1.
                      andThen (pushNode_js focusedPersonId rightPerson rX cY gen
                                 (entryId rightPerson \<noteq> Some focusedPersonId) isCh isPar s1)
                        (\<lambda>s2.
                      Inr (\<lparr> leftX = lX - leftWidth / 2, rightX = rX + rightWidth / 2,
                              centerX = cX \<rparr>,
                           pushConnection_js
                             (spouseConnection_js leftPerson rightPerson lX leftWidth rX
                                rightWidth cY) s2))))))
        | None \<Rightarrow>
            andThen (pushNode_js focusedPersonId p cX cY gen False isCh isPar s) (\<lambda>s1.
              Inr (\<lparr> leftX = cX - personWidth / 2, rightX = cX + personWidth / 2,
                      centerX = cX \<rparr>, s1))))"

fun descendants_loop_js ::
  "(Entry \<Rightarrow> real \<Rightarrow> State_js \<Rightarrow> error + State_js) \<Rightarrow> string \<Rightarrow> People \<Rightarrow> Entry \<Rightarrow> real \<Rightarrow> real
     \<Rightarrow> real \<Rightarrow> int \<Rightarrow> (Entry \<times> real) list \<Rightarrow> real \<Rightarrow> State_js \<Rightarrow> error + State_js" where
  "descendants_loop_js recurse focusedPersonId people parentPerson parentCenterX parentY childY
     gen [] currentX s = Inr s"
| "descendants_loop_js recurse focusedPersonId people parentPerson parentCenterX parentY childY
     gen ((child, childWidth) # rest) currentX s =
     (let childCenterX = currentX + childWidth / 2 in
      andThen (positionCouple_js focusedPersonId people child childCenterX childY (gen + 1)
                 True False s)
        (\<lambda>(result, s1).
           let s2 = (case find (\<lambda>n. entryId (j_person n) = entryId child) (j_nodes s1) of
                       Some childNode \<Rightarrow>
                         pushConnection_js
                           (parentChildConnection_js (entryId parentPerson) (entryId child)
                              parentCenterX (parentY + NODE_HEIGHT / 2)
                              (j_x childNode) (childY - NODE_HEIGHT / 2)) s1
                     | None \<Rightarrow> s1)
           in andThen (recurse child (centerX result) s2) (\<lambda>s3.
                descendants_loop_js recurse focusedPersonId people parentPerson parentCenterX
                  parentY childY gen rest (currentX + childWidth + HORIZONTAL_GAP) s3)))"

lemma descendants_loop_js_cong [fundef_cong]:
  assumes "items = items'" "s = s'" "cur = cur'"
    and "\<And>c x t. c \<in> fst ` set items' \<Longrightarrow> f c x t = g c x t"
  shows "descendants_loop_js f fid people parent pcx py cy gen items cur s =
         descendants_loop_js g fid people parent pcx py cy gen items' cur' s'"
  using assms
proof (induction items arbitrary: items' cur cur' s s')
  case Nil
  then show ?case by simp
next
  case (Cons a items)
  obtain c w where a: "a = (c, w)" by (cases a)
  from Cons.prems have eq: "items' = a # items" "s' = s" "cur' = cur" by simp_all
  have fg: "\<And>x t. f c x t = g c x t" using Cons.prems(4) eq a by simp
  have rest: "\<And>cur2 s2. descendants_loop_js f fid people parent pcx py cy gen items cur2 s2 =
              descendants_loop_js g fid people parent pcx py cy gen items cur2 s2"
    by (rule Cons.IH) (use Cons.prems(4) eq in auto)
  have rest': "\<And>cur2. descendants_loop_js f fid people parent pcx py cy gen items cur2 =
              descendants_loop_js g fid people parent pcx py cy gen items cur2"
    by (rule ext) (rule rest)
  show ?case unfolding eq a by (simp add: fg rest' Let_def split: prod.splits)
qed

text \<open>
  \<^verbatim>\<open>parentPerson.childrenIds.map(id => people[id]).filter(Boolean)
  .filter(c => !positioned.has(c.id))\<close>; the \<^verbatim>\<open>.map\<close> raises when the parent has no
  \<^verbatim>\<open>childrenIds\<close>.
\<close>

definition childrenOf_js :: "People \<Rightarrow> Entry \<Rightarrow> State_js \<Rightarrow> error + Entry list" where
  "childrenOf_js people parentPerson s =
     (case entryChildrenIds parentPerson of
        None \<Rightarrow> Inl TypeError
      | Some ids \<Rightarrow>
          Inr (filter (\<lambda>c. entryId c \<notin> j_positioned s)
                 (List.map_filter (lookupEntry people) ids)))"

function positionDescendants_js ::
  "string \<Rightarrow> People \<Rightarrow> Entry \<Rightarrow> real \<Rightarrow> real \<Rightarrow> int \<Rightarrow> int \<Rightarrow> State_js \<Rightarrow> error + State_js" where
  "positionDescendants_js focusedPersonId people parentPerson parentCenterX parentY gen depth s =
     (if depth \<ge> MAX_LAYERS_DOWN then Inr s
      else
        andThen (childrenOf_js people parentPerson s) (\<lambda>children.
          if children = [] then Inr s
          else
            let childY = parentY + VERTICAL_GAP + NODE_HEIGHT in
            andThen
              (allOf (map (\<lambda>child.
                             andThen (calculateSubtreeWidth_js (entryId child) people
                                        (MAX_LAYERS_DOWN - depth - 1) 0 (j_positioned s))
                               (\<lambda>r. Inr (fst r)))
                          children))
              (\<lambda>childWidths.
            andThen
              (allOf (map (\<lambda>(w, child).
                             andThen (calculateCoupleWidth_js child (getSpouse_js child people))
                               (\<lambda>minWidth. Inr (max w minWidth)))
                          (zip childWidths children)))
              (\<lambda>adjustedWidths.
                 let totalWidth = foldl (\<lambda>sum w. sum + w) 0 adjustedWidths
                                  + (real (length children) - 1) * HORIZONTAL_GAP;
                     currentX = parentCenterX - totalWidth / 2
                 in descendants_loop_js
                      (\<lambda>child cX s'. positionDescendants_js focusedPersonId people child cX
                                        childY (gen + 1) (depth + 1) s')
                      focusedPersonId people parentPerson parentCenterX parentY childY gen
                      (zip children adjustedWidths) currentX s))))"
  by pat_completeness auto
termination
  by (relation "measure (\<lambda>(fid, people, parentPerson, pcx, py, gen, depth, s).
                  nat (MAX_LAYERS_DOWN - depth))") auto

declare positionDescendants_js.simps [simp del]

text \<open>
  \<^verbatim>\<open>findParents\<close> scans \<^verbatim>\<open>Object.values(people)\<close>, the object's own entries: the
  parents are persons of the graph.
\<close>

function positionAncestors_js ::
  "string \<Rightarrow> People \<Rightarrow> string \<Rightarrow> real \<Rightarrow> real \<Rightarrow> int \<Rightarrow> int \<Rightarrow> State_js \<Rightarrow> error + State_js" where
  "positionAncestors_js focusedPersonId people personId personCenterX personY gen depth s =
     (if depth \<ge> MAX_LAYERS_UP then Inr s
      else
        case filter (\<lambda>p. Some (pid p) \<notin> j_positioned s) (findParents personId people) of
          [] \<Rightarrow> Inr s
        | parent # _ \<Rightarrow>
            let parentY = personY - VERTICAL_GAP - NODE_HEIGHT in
            andThen (positionCouple_js focusedPersonId people (Stored parent) personCenterX
                       parentY (gen - 1) False True s)
              (\<lambda>(result, s1).
                 let s2 = (case find (\<lambda>n. entryId (j_person n) = Some personId) (j_nodes s1) of
                             Some childNode \<Rightarrow>
                               pushConnection_js
                                 (parentChildConnection_js (Some (pid parent)) (Some personId)
                                    (centerX result) (parentY + NODE_HEIGHT / 2)
                                    (j_x childNode) (personY - NODE_HEIGHT / 2)) s1
                           | None \<Rightarrow> s1)
                 in positionAncestors_js focusedPersonId people (pid parent) (centerX result)
                      parentY (gen - 1) (depth + 1) s2))"
  by pat_completeness auto
termination
  by (relation "measure (\<lambda>(fid, people, personId, pcx, py, gen, depth, s).
                  nat (MAX_LAYERS_UP - depth))") auto

declare positionAncestors_js.simps [simp del]

definition bounds_step_js ::
  "(real \<times> real \<times> real \<times> real) option \<Rightarrow> Node_js \<Rightarrow> (real \<times> real \<times> real \<times> real) option"
  where
  "bounds_step_js acc n =
     (let halfWidth = j_width n / 2; halfHeight = j_height n / 2
      in case acc of
           None \<Rightarrow> Some (j_x n - halfWidth, j_x n + halfWidth, j_y n - halfHeight,
                         j_y n + halfHeight)
         | Some (mnX, mxX, mnY, mxY) \<Rightarrow>
             Some (min mnX (j_x n - halfWidth), max mxX (j_x n + halfWidth),
                   min mnY (j_y n - halfHeight), max mxY (j_y n + halfHeight)))"

definition computeBounds_js :: "Node_js list \<Rightarrow> Bounds" where
  "computeBounds_js ns =
     (case foldl bounds_step_js None ns of
        None \<Rightarrow> \<lparr> minX = 0, maxX = 0, minY = 0, maxY = 0, bwidth = 0, bheight = 0 \<rparr>
      | Some (mnX, mxX, mnY, mxY) \<Rightarrow>
          \<lparr> minX = mnX, maxX = mxX, minY = mnY, maxY = mxY,
            bwidth = mxX - mnX, bheight = mxY - mnY \<rparr>)"

definition initialState_js :: State_js where
  "initialState_js = \<lparr> j_nodes = [], j_connections = [], j_positioned = {} \<rparr>"

definition computeLayout_js :: "string \<Rightarrow> People \<Rightarrow> error + Result_js" where
  "computeLayout_js focusedPersonId people =
     (case lookupEntry people focusedPersonId of
        None \<Rightarrow>
          Inr \<lparr> r_nodes = [], r_connections = [],
                r_bounds = \<lparr> minX = 0, maxX = 0, minY = 0, maxY = 0, bwidth = 0, bheight = 0 \<rparr>,
                r_focusedNode = None \<rparr>
      | Some focusedPerson \<Rightarrow>
          andThen (positionCouple_js focusedPersonId people focusedPerson 0 0 0 False False
                     initialState_js)
            (\<lambda>(result, s1).
          andThen (positionDescendants_js focusedPersonId people focusedPerson (centerX result)
                     0 0 0 s1)
            (\<lambda>s2.
          andThen (positionAncestors_js focusedPersonId people focusedPersonId (centerX result)
                     0 0 0 s2)
            (\<lambda>s.
          Inr \<lparr> r_nodes = j_nodes s, r_connections = j_connections s,
                r_bounds = computeBounds_js (j_nodes s),
                r_focusedNode = find j_isFocused (j_nodes s) \<rparr>))))"

section \<open>Predicates, measures and example graphs of the statements\<close>

text \<open>
  The definitions below are not code of the engine: they name the properties that the
  theorems state, the quantities that the proofs compare, and the small graphs on which
  the theorems are instantiated.
\<close>

text \<open>
  The condition of \<^verbatim>\<open>positionCouple\<close> that selects the couple branch: the spouse
  resolves and is not positioned yet.
\<close>

definition spouseAvailable :: "People \<Rightarrow> Person \<Rightarrow> LayoutState \<Rightarrow> Person option" where
  "spouseAvailable people p s =
     (case getSpouse p people of
        Some sp \<Rightarrow> if pid sp \<notin> positioned s then Some sp else None
      | None \<Rightarrow> None)"

text \<open>The person ids of a list of nodes, in order.\<close>

definition ids_of :: "LayoutNode list \<Rightarrow> string list" where
  "ids_of ns = map (\<lambda>n. pid (person n)) ns"

text \<open>The positioned set holds exactly the ids of the nodes, and no id has two nodes.\<close>

definition placedOnce :: "LayoutState \<Rightarrow> bool" where
  "placedOnce s \<longleftrightarrow> distinct (ids_of (s_nodes s)) \<and> positioned s = set (ids_of (s_nodes s))"

text \<open>Every node's generation lies within the two layer limits.\<close>

definition generationsWithin :: "LayoutState \<Rightarrow> bool" where
  "generationsWithin s \<longleftrightarrow>
     (\<forall>n\<in>set (s_nodes s). - MAX_LAYERS_UP \<le> generation n \<and> generation n \<le> MAX_LAYERS_DOWN)"

text \<open>An entry of an example graph: a person stored under its id, named by its id.\<close>

definition mkPerson :: "string \<Rightarrow> Gender \<Rightarrow> string option \<Rightarrow> string list \<Rightarrow> string \<times> Person" where
  "mkPerson i g sp ch = (i, \<lparr> pid = i, name = i, gender = g, spouseId = sp, childrenIds = ch \<rparr>)"

text \<open>X is married to Y and also lists Y as a child: two paths reach Y.\<close>

definition spouseAlsoChild :: People where
  "spouseAlsoChild =
     [mkPerson ''X'' Male (Some ''Y'') [''Y''], mkPerson ''Y'' Female (Some ''X'') []]"

text \<open>Three generations: grandparents GP and GM, the couple F and S, their children.\<close>

definition threeGenerations :: People where
  "threeGenerations =
     [mkPerson ''GP'' Male (Some ''GM'') [''F''], mkPerson ''GM'' Female (Some ''GP'') [''F''],
      mkPerson ''F'' Male (Some ''S'') [''c1'', ''c2''],
      mkPerson ''S'' Female (Some ''F'') [''c1'', ''c2''],
      mkPerson ''c1'' Male (Some ''d1'') [], mkPerson ''d1'' Female (Some ''c1'') [],
      mkPerson ''c2'' Female None []]"

text \<open>The state once the focused couple is placed.\<close>

definition afterFocus :: "string \<Rightarrow> People \<Rightarrow> LayoutState" where
  "afterFocus fid people =
     (case map_of people fid of
        Some fp \<Rightarrow> snd (positionCouple fid people fp 0 0 0 False False initialState)
      | None \<Rightarrow> initialState)"

text \<open>The nodes flagged focused are those of the focused id.\<close>

definition focusFlagged :: "string \<Rightarrow> LayoutState \<Rightarrow> bool" where
  "focusFlagged fid s \<longleftrightarrow>
     positioned s = set (ids_of (s_nodes s))
     \<and> (\<forall>n\<in>set (s_nodes s). isFocused n \<longleftrightarrow> pid (person n) = fid)"

text \<open>The nodes pushed between a state and a later one.\<close>

definition newNodes :: "LayoutState \<Rightarrow> LayoutState \<Rightarrow> LayoutNode list" where
  "newNodes s s' = drop (length (s_nodes s)) (s_nodes s')"


text \<open>X lists Y as a child and Y lists X as a child.\<close>

definition mutualChildren :: People where
  "mutualChildren = [mkPerson ''X'' Male None [''Y''], mkPerson ''Y'' Female None [''X'']]"


text \<open>The children that the width loop visits.\<close>

definition validChildren :: "People \<Rightarrow> Person \<Rightarrow> string set \<Rightarrow> string list" where
  "validChildren people p marked =
     filter (\<lambda>c. map_of people c \<noteq> None \<and> c \<notin> marked) (childrenIds p)"














text \<open>
  \<^verbatim>\<open>people[k]\<close> finds an own entry or nothing: \<open>k\<close> is a key of the graph, or names no
  member of the prototype.
\<close>

definition ownLookup :: "People \<Rightarrow> string \<Rightarrow> bool" where
  "ownLookup people k \<longleftrightarrow> k \<in> fst ` set people \<or> map_of objectPrototype k = None"

text \<open>The ids that a person carries and the engine looks up.\<close>

definition carriedIds :: "Person \<Rightarrow> string list" where
  "carriedIds p = pid p # (case spouseId p of Some sid \<Rightarrow> [sid] | None \<Rightarrow> []) @ childrenIds p"

text \<open>
  No id that a person of the graph carries (its own id, its spouse id, the ids of its
  children) names an inherited member, unless the graph has a key of that name.
\<close>

definition prototypeFree :: "People \<Rightarrow> bool" where
  "prototypeFree people \<longleftrightarrow>
     list_all (\<lambda>p. list_all (ownLookup people) (carriedIds p)) (map snd people)"

text \<open>A node, a connection, a state and a result of the first part, as the second part has them.\<close>

definition node_js :: "LayoutNode \<Rightarrow> Node_js" where
  "node_js n =
     \<lparr> j_person = Stored (person n), j_x = nx n, j_y = ny n, j_width = width n,
       j_height = height n, j_isSpouse = isSpouse n, j_isChild = isChild n,
       j_isParent = isParent n, j_isFocused = isFocused n, j_generation = generation n \<rparr>"

definition connection_js :: "Connection \<Rightarrow> Connection_js" where
  "connection_js c =
     \<lparr> j_cid = cid c, j_ctype = ctype c, j_from = from_pt c, j_to = to_pt c,
       j_fromId = Some (fromId c), j_toId = Some (toId c) \<rparr>"

definition state_js :: "LayoutState \<Rightarrow> State_js" where
  "state_js s =
     \<lparr> j_nodes = map node_js (s_nodes s), j_connections = map connection_js (s_connections s),
       j_positioned = Some ` positioned s \<rparr>"

definition result_js :: "LayoutResult \<Rightarrow> Result_js" where
  "result_js r =
     \<lparr> r_nodes = map node_js (nodes r), r_connections = map connection_js (connections r),
       r_bounds = bounds r, r_focusedNode = map_option node_js (focusedNode r) \<rparr>"

text \<open>P lists as a child the id \<^verbatim>\<open>toString\<close>, which the graph does not hold.\<close>

definition inheritedChild :: People where
  "inheritedChild = [mkPerson ''P'' Male None [''toString'']]"

text \<open>P names as spouse the id \<^verbatim>\<open>constructor\<close>, which the graph does not hold.\<close>

definition inheritedSpouse :: People where
  "inheritedSpouse = [mkPerson ''P'' Male (Some ''constructor'') []]"

text \<open>The key k holds a person whose id is A.\<close>

definition storedUnderAnotherKey :: People where
  "storedUnderAnotherKey = [(''k'', snd (mkPerson ''A'' Male None []))]"

text \<open>The child c of F lists the id \<^verbatim>\<open>constructor\<close>, which the graph does not hold.\<close>

definition inheritedGrandchild :: People where
  "inheritedGrandchild =
     [mkPerson ''F'' Male None [''c''], mkPerson ''c'' Male None [''constructor'']]"

lemmas CONFIG_defs =
  MIN_NODE_WIDTH_def MAX_NODE_WIDTH_def NODE_HEIGHT_def CHAR_WIDTH_def PADDING_def
  HORIZONTAL_GAP_def VERTICAL_GAP_def SPOUSE_GAP_def MAX_LAYERS_UP_def MAX_LAYERS_DOWN_def

section \<open>Node widths\<close>

lemma calculateNodeWidth_bounds:
  "MIN_NODE_WIDTH \<le> calculateNodeWidth nm" "calculateNodeWidth nm \<le> MAX_NODE_WIDTH"
  by (simp_all add: calculateNodeWidth_def CONFIG_defs Let_def)

lemma calculateNodeWidth_ge: "140 \<le> calculateNodeWidth nm"
  using calculateNodeWidth_bounds(1) [of nm] by (simp add: MIN_NODE_WIDTH_def)

lemma calculateNodeWidth_le: "calculateNodeWidth nm \<le> 220"
  using calculateNodeWidth_bounds(2) [of nm] by (simp add: MAX_NODE_WIDTH_def)

lemma calculateCoupleWidth_ge: "140 \<le> calculateCoupleWidth p sp"
  using calculateNodeWidth_ge [of "name p"] calculateNodeWidth_ge [of "name (the sp)"]
  by (cases sp) (simp_all add: calculateCoupleWidth_def SPOUSE_GAP_def)

lemma childrenWidth_loop_sum:
  "ws \<noteq> [] \<Longrightarrow> childrenWidth_loop ws = sum_list ws + (real (length ws) - 1) * HORIZONTAL_GAP"
  by (induction ws rule: childrenWidth_loop.induct) (simp_all add: algebra_simps)

text \<open>
  Claim C8. For every name, \<open>calculateNodeWidth\<close> is
  \<open>length * CHAR_WIDTH + PADDING\<close> clamped to \<open>[MIN_NODE_WIDTH, MAX_NODE_WIDTH]\<close>: the
  name \<open>''A''\<close> gets exactly \<open>MIN_NODE_WIDTH\<close>, and a name whose text width exceeds
  \<open>MAX_NODE_WIDTH\<close> gets exactly \<open>MAX_NODE_WIDTH\<close>. The function is a total HOL function
  of the name alone.
\<close>

theorem calculateNodeWidth_formula:
  "calculateNodeWidth nm =
     max MIN_NODE_WIDTH (min MAX_NODE_WIDTH (real (length nm) * CHAR_WIDTH + PADDING))
   \<and> MIN_NODE_WIDTH \<le> calculateNodeWidth nm \<and> calculateNodeWidth nm \<le> MAX_NODE_WIDTH
   \<and> calculateNodeWidth ''A'' = MIN_NODE_WIDTH
   \<and> (MAX_NODE_WIDTH < real (length nm) * CHAR_WIDTH + PADDING
        \<longrightarrow> calculateNodeWidth nm = MAX_NODE_WIDTH)"
  by (simp add: calculateNodeWidth_def CONFIG_defs Let_def)

theorem calculateNodeWidth_formula_witness:
  "MAX_NODE_WIDTH < real (length ''Bartholomew Fitzgerald'') * CHAR_WIDTH + PADDING
   \<and> calculateNodeWidth ''Bartholomew Fitzgerald'' = MAX_NODE_WIDTH"
proof -
  have h: "MAX_NODE_WIDTH < real (length ''Bartholomew Fitzgerald'') * CHAR_WIDTH + PADDING"
    by (simp add: CONFIG_defs)
  from calculateNodeWidth_formula [of "''Bartholomew Fitzgerald''"] h
  show ?thesis by blast
qed

section \<open>The subtree width algorithm\<close>

text \<open>
  The branches of the width computation, for the lookup among the own keys: 0 when the
  current depth exceeds the limit, the id is already visited or the graph has no such
  key; the couple width when the person has no children or the depth limit is reached;
  and otherwise the maximum of the couple width and the sum of the widths of the
  resolvable unvisited children, in \<open>childrenIds\<close> order, plus
  \<open>(n - 1) * HORIZONTAL_GAP\<close>. Every child's call starts from the same set \<open>marked\<close> (the
  visited set with the person and the resolved spouse added), whatever the calls on its
  siblings added to their copies.
\<close>

lemma calculateSubtreeWidth_algorithm:
  "fst (calculateSubtreeWidth personId people maxDepth currentDepth visited) =
     (if maxDepth < currentDepth \<or> personId \<in> visited then 0
      else case map_of people personId of
        None \<Rightarrow> 0
      | Some p \<Rightarrow>
          let spouse = getSpouse p people;
              coupleWidth =
                (case spouse of
                   Some sp \<Rightarrow> calculateNodeWidth (name p) + calculateNodeWidth (name sp) + SPOUSE_GAP
                 | None \<Rightarrow> calculateNodeWidth (name p));
              marked = insert personId visited \<union> (case spouse of Some sp \<Rightarrow> {pid sp} | None \<Rightarrow> {});
              kids = filter (\<lambda>c. c \<in> dom (map_of people) \<and> c \<notin> marked) (childrenIds p)
          in if childrenIds p = [] \<or> maxDepth \<le> currentDepth then coupleWidth
             else max coupleWidth
                    (sum_list (map (\<lambda>c. fst (calculateSubtreeWidth c people maxDepth
                                               (currentDepth + 1) marked)) kids)
                     + (real (length kids) - 1) * HORIZONTAL_GAP))"
proof (cases "maxDepth < currentDepth \<or> personId \<in> visited")
  case True
  then show ?thesis by (subst calculateSubtreeWidth.simps) auto
next
  case guard: False
  show ?thesis
  proof (cases "map_of people personId")
    case None
    with guard show ?thesis by (subst calculateSubtreeWidth.simps) (auto simp: Let_def)
  next
    case (Some p)
    define spouse where "spouse = getSpouse p people"
    define cw where "cw = calculateCoupleWidth p spouse"
    define marked where
      "marked = insert personId visited \<union> (case spouse of Some sp \<Rightarrow> {pid sp} | None \<Rightarrow> {})"
    define kids where
      "kids = filter (\<lambda>c. c \<in> dom (map_of people) \<and> c \<notin> marked) (childrenIds p)"
    define ws where
      "ws = map (\<lambda>c. fst (calculateSubtreeWidth c people maxDepth (currentDepth + 1) marked)) kids"
    have marked_eq:
      "(case spouse of Some s \<Rightarrow> insert (pid s) (insert personId visited)
                     | None \<Rightarrow> insert personId visited) = marked"
      by (cases spouse) (auto simp: marked_def)
    have kids_eq: "filter (\<lambda>c. (\<exists>y. map_of people c = Some y) \<and> c \<notin> marked) (childrenIds p) = kids"
      by (simp add: kids_def dom_def)
    have cw_eq: "cw = (case spouse of
                   Some sp \<Rightarrow> calculateNodeWidth (name p) + calculateNodeWidth (name sp) + SPOUSE_GAP
                 | None \<Rightarrow> calculateNodeWidth (name p))"
      by (simp add: cw_def calculateCoupleWidth_def Let_def)
    have cw_pos: "140 \<le> cw" unfolding cw_def by (rule calculateCoupleWidth_ge)
    have loop: "max cw (childrenWidth_loop ws) =
                max cw (sum_list ws + (real (length kids) - 1) * HORIZONTAL_GAP)"
    proof (cases "ws = []")
      case True
      then have "kids = []" by (simp add: ws_def)
      with True cw_pos show ?thesis by (simp add: HORIZONTAL_GAP_def)
    next
      case False
      then show ?thesis by (simp add: childrenWidth_loop_sum) (simp add: ws_def)
    qed
    have lhs: "fst (calculateSubtreeWidth personId people maxDepth currentDepth visited) =
               (if childrenIds p = [] \<or> maxDepth \<le> currentDepth then cw
                else max cw (childrenWidth_loop ws))"
      using guard Some
      by (subst calculateSubtreeWidth.simps)
         (simp add: Let_def spouse_def [symmetric] marked_eq kids_eq cw_def ws_def)
    have "fst (calculateSubtreeWidth personId people maxDepth currentDepth visited) =
          (if childrenIds p = [] \<or> maxDepth \<le> currentDepth then cw
           else max cw (sum_list ws + (real (length kids) - 1) * HORIZONTAL_GAP))"
      by (simp add: lhs loop)
    then show ?thesis
      unfolding cw_eq ws_def kids_def marked_def spouse_def Let_def
      using guard Some by simp
  qed
qed

text \<open>
  Claim C2. For an id that is absent from the graph, \<open>calculateSubtreeWidth\<close> is to return
  0. It does not when the id names an inherited member: for the id \<^verbatim>\<open>constructor\<close> and the
  empty graph, \<^verbatim>\<open>people[personId]\<close> is the function \<^verbatim>\<open>Object\<close>, the guard
  \<^verbatim>\<open>if (!person) return 0\<close> lets it pass, and \<^verbatim>\<open>person.childrenIds.length\<close> raises a
  \<^verbatim>\<open>TypeError\<close>. \<open>computeLayout\<close> reaches such a call from the graph in which the focused
  person's child lists that id as its own child.
\<close>

theorem calculateSubtreeWidth_inherited_id:
  "calculateSubtreeWidth_js (Some ''constructor'') [] 3 0 {} = Inl TypeError
   \<and> computeLayout_js ''F'' inheritedGrandchild = Inl TypeError"
  by code_simp

text \<open>
  An inherited member in the place of a spouse raises nothing: its \<^verbatim>\<open>name\<close> gives it a
  width, and it is placed beside the person as a node without an id.
\<close>

lemma inherited_spouse_width:
  "map_sum id fst (calculateSubtreeWidth_js (Some ''P'') inheritedSpouse 3 0 {}) = Inr 300
   \<and> fst (calculateSubtreeWidth ''P'' inheritedSpouse 3 0 {}) = 140"
  by code_simp

lemma inherited_spouse_layout:
  "map_sum id (\<lambda>r. map (\<lambda>n. (j_person n, j_x n, j_width n, j_isSpouse n)) (r_nodes r))
     (computeLayout_js ''P'' inheritedSpouse) =
   Inr [(Stored (snd (mkPerson ''P'' Male (Some ''constructor'') [])), - 80, 140, False),
        (InheritedFunction ''Object'', 80, 140, True)]"
  by code_simp

section \<open>Invariants of the placement passes\<close>

text \<open>
  A property of the layout state that every couple placement and every pushed
  parent-child connection keeps is kept by the descendant loop, by
  \<open>positionDescendants\<close> and by \<open>positionAncestors\<close>.
\<close>

lemma pushConnection_simps [simp]:
  "s_nodes (pushConnection c s) = s_nodes s"
  "positioned (pushConnection c s) = positioned s"
  "s_connections (pushConnection c s) = s_connections s @ [c]"
  by (simp_all add: pushConnection_def)

lemma ctype_spouseConnection [simp]: "ctype (spouseConnection l r lx lw rx rw cy) = Spouse"
  by (simp add: spouseConnection_def)

lemma ctype_parentChildConnection [simp]:
  "ctype (parentChildConnection a b fx fy tx ty) = ParentChild"
  by (simp add: parentChildConnection_def)

lemma childrenOf_in_people:
  assumes "c \<in> set (childrenOf people parent s)"
  shows "\<exists>k. k \<in> set (childrenIds parent) \<and> map_of people k = Some c" "pid c \<notin> positioned s"
  using assms by (auto simp: childrenOf_def List.map_filter_def)

lemma childrenOf_values: "c \<in> set (childrenOf people parent s) \<Longrightarrow> c \<in> snd ` set people"
  by (auto dest!: childrenOf_in_people(1) map_of_SomeD intro: rev_image_eqI)

lemma findParents_step_subset:
  "set (findParents_step k acc p) \<subseteq> insert p (set acc)"
  by (auto simp: findParents_step_def)

lemma foldl_findParents_subset:
  "set (foldl (findParents_step k) acc ps) \<subseteq> set acc \<union> set ps"
proof (induction ps arbitrary: acc)
  case Nil
  then show ?case by simp
next
  case (Cons p ps)
  show ?case using Cons.IH [of "findParents_step k acc p"] findParents_step_subset [of k acc p]
    by auto
qed

lemma findParents_values: "p \<in> set (findParents k people) \<Longrightarrow> p \<in> snd ` set people"
  using foldl_findParents_subset [of k "[]" "map snd people"] by (auto simp: findParents_def)

lemma descendants_loop_preserves:
  assumes "I s"
    and couple: "\<And>c w x t. (c, w) \<in> set items \<Longrightarrow> I t \<Longrightarrow>
                   I (snd (positionCouple fid people c x childY (gen + 1) True False t))"
    and conn: "\<And>c t. I t \<Longrightarrow> ctype c = ParentChild \<Longrightarrow> I (pushConnection c t)"
    and recurse: "\<And>c w x t. (c, w) \<in> set items \<Longrightarrow> I t \<Longrightarrow> I (recurse c x t)"
  shows "I (descendants_loop recurse fid people parent pcx pY childY gen items cur s)"
  using assms
proof (induction items arbitrary: cur s)
  case Nil
  then show ?case by simp
next
  case (Cons a items)
  obtain c w where a: "a = (c, w)" by (cases a)
  define r where "r = positionCouple fid people c (cur + w / 2) childY (gen + 1) True False s"
  define s2 where "s2 = (case find (\<lambda>n. pid (person n) = pid c) (s_nodes (snd r)) of
                  Some childNode \<Rightarrow>
                    pushConnection
                      (parentChildConnection (pid parent) (pid c)
                         pcx (pY + NODE_HEIGHT / 2)
                         (nx childNode) (childY - NODE_HEIGHT / 2)) (snd r)
                | None \<Rightarrow> snd r)"
  have 1: "I (snd r)" unfolding r_def by (rule Cons.prems(2) [of c w]) (simp_all add: a Cons.prems(1))
  have 2: "I s2" unfolding s2_def using 1 by (auto split: option.splits intro: Cons.prems(3))
  have 3: "I (recurse c (centerX (fst r)) s2)" by (rule Cons.prems(4) [of c w]) (simp_all add: a 2)
  have "I (descendants_loop recurse fid people parent pcx pY childY gen items
             (cur + w + HORIZONTAL_GAP) (recurse c (centerX (fst r)) s2))"
  proof (rule Cons.IH)
    show "I (recurse c (centerX (fst r)) s2)" by (rule 3)
  next
    fix c' w' x t assume "(c', w') \<in> set items" "I t"
    then show "I (snd (positionCouple fid people c' x childY (gen + 1) True False t))"
      by (intro Cons.prems(2) [of c' w']) simp_all
  next
    fix c' :: Connection and t assume "I t" "ctype c' = ParentChild"
    then show "I (pushConnection c' t)" by (rule Cons.prems(3))
  next
    fix c' w' x t assume "(c', w') \<in> set items" "I t"
    then show "I (recurse c' x t)" by (intro Cons.prems(4) [of c' w']) simp_all
  qed
  then show ?case
    unfolding s2_def r_def by (simp add: a Let_def case_prod_beta)
qed

lemma positionDescendants_preserves:
  assumes conn: "\<And>c t. I t \<Longrightarrow> ctype c = ParentChild \<Longrightarrow> I (pushConnection c t)"
  shows "I s \<Longrightarrow>
    (\<And>c x y' g t. I t \<Longrightarrow> c \<in> snd ` set people \<Longrightarrow> gen < g \<Longrightarrow>
        g \<le> gen + (MAX_LAYERS_DOWN - depth) \<Longrightarrow>
        I (snd (positionCouple fid people c x y' g True False t))) \<Longrightarrow>
    I (positionDescendants fid people parent pcx pY gen depth s)"
proof (induction fid people parent pcx pY gen depth s rule: positionDescendants.induct)
  case (1 fid people parent pcx pY gen depth s)
  show ?case
  proof (cases "depth \<ge> MAX_LAYERS_DOWN \<or> childrenOf people parent s = []")
    case True
    then show ?thesis using "1.prems"(1) by (subst positionDescendants.simps) auto
  next
    case False
    then have d: "\<not> MAX_LAYERS_DOWN \<le> depth" and ne: "childrenOf people parent s \<noteq> []" by auto
    show ?thesis
      apply (subst positionDescendants.simps)
      apply (simp only: d ne if_False Let_def)
      apply (rule descendants_loop_preserves [where I = I])
         apply (rule "1.prems"(1))
        apply (rule "1.prems"(2))
           apply assumption
          apply (erule set_zip_leftD [THEN childrenOf_values])
      using d apply simp
      using d apply simp
       apply (erule (1) conn)
      apply (rule "1.IH" [OF d refl ne refl refl refl refl refl])
        apply (force dest: set_zip_leftD)
       apply assumption
      apply (rule "1.prems"(2))
      using d apply simp_all
      done
  qed
qed

lemma positionAncestors_preserves:
  assumes conn: "\<And>c t. I t \<Longrightarrow> ctype c = ParentChild \<Longrightarrow> I (pushConnection c t)"
  shows "I s \<Longrightarrow>
    (\<And>c x y' g t. I t \<Longrightarrow> c \<in> snd ` set people \<Longrightarrow> g < gen \<Longrightarrow>
        gen - (MAX_LAYERS_UP - depth) \<le> g \<Longrightarrow>
        I (snd (positionCouple fid people c x y' g False True t))) \<Longrightarrow>
    I (positionAncestors fid people k pcx pY gen depth s)"
proof (induction fid people k pcx pY gen depth s rule: positionAncestors.induct)
  case (1 fid people k pcx pY gen depth s)
  show ?case
  proof (cases "depth \<ge> MAX_LAYERS_UP")
    case True
    then show ?thesis using "1.prems"(1) by (subst positionAncestors.simps) auto
  next
    case d: False
    show ?thesis
    proof (cases "filter (\<lambda>p. pid p \<notin> positioned s) (findParents k people)")
      case Nil
      then show ?thesis using "1.prems"(1) d by (subst positionAncestors.simps) auto
    next
      case (Cons parent rest)
      then have "parent \<in> set (filter (\<lambda>p. pid p \<notin> positioned s) (findParents k people))"
        by simp
      then have "parent \<in> set (findParents k people)" by simp
      then have pv: "parent \<in> snd ` set people" by (rule findParents_values)
      define parentY where "parentY = pY - VERTICAL_GAP - NODE_HEIGHT"
      define r where "r = positionCouple fid people parent pcx parentY (gen - 1) False True s"
      define s2 where "s2 = (case find (\<lambda>n. pid (person n) = k) (s_nodes (snd r)) of
                        Some childNode \<Rightarrow>
                          pushConnection
                            (parentChildConnection (pid parent) k
                               (centerX (fst r)) (parentY + NODE_HEIGHT / 2)
                               (nx childNode) (pY - NODE_HEIGHT / 2)) (snd r)
                      | None \<Rightarrow> snd r)"
      have i1: "I (snd r)" unfolding r_def using "1.prems"(1) pv d
        by (intro "1.prems"(2)) simp_all
      have i2: "I s2" unfolding s2_def using i1 by (auto split: option.splits intro: conn)
      have eq: "positionAncestors fid people k pcx pY gen depth s =
                positionAncestors fid people (pid parent) (centerX (fst r)) parentY (gen - 1)
                  (depth + 1) s2"
        unfolding s2_def r_def parentY_def using d Cons
        by (subst positionAncestors.simps) (simp add: Let_def case_prod_beta)
      have "I (positionAncestors fid people (pid parent) (centerX (fst r)) parentY (gen - 1)
                  (depth + 1) s2)"
        unfolding s2_def r_def parentY_def
        apply (rule "1.IH" [OF d Cons refl refl prod.collapse refl])
         apply (rule i2 [unfolded s2_def r_def parentY_def])
        apply (rule "1.prems"(2))
           apply assumption
          apply assumption
         apply simp
        apply simp
        done
      then show ?thesis by (simp add: eq)
    qed
  qed
qed

section \<open>Couple placement, branch by branch\<close>

lemma pushNode_simps:
  "pid q \<in> positioned s \<Longrightarrow> pushNode fid q x y g sp ch pa s = s"
  "pid q \<notin> positioned s \<Longrightarrow>
     s_nodes (pushNode fid q x y g sp ch pa s) = s_nodes s @ [createNode fid q x y g sp ch pa]"
  "positioned (pushNode fid q x y g sp ch pa s) = insert (pid q) (positioned s)"
  "s_connections (pushNode fid q x y g sp ch pa s) = s_connections s"
  by (auto simp: pushNode_def)

lemma createNode_simps [simp]:
  "person (createNode fid q x y g sp ch pa) = q"
  "nx (createNode fid q x y g sp ch pa) = x"
  "ny (createNode fid q x y g sp ch pa) = y"
  "width (createNode fid q x y g sp ch pa) = calculateNodeWidth (name q)"
  "height (createNode fid q x y g sp ch pa) = NODE_HEIGHT"
  "isSpouse (createNode fid q x y g sp ch pa) = sp"
  "isChild (createNode fid q x y g sp ch pa) = ch"
  "isParent (createNode fid q x y g sp ch pa) = pa"
  "isFocused (createNode fid q x y g sp ch pa) = (pid q = fid)"
  "generation (createNode fid q x y g sp ch pa) = g"
  by (simp_all add: createNode_def)

lemma positionCouple_centerX [simp]:
  "centerX (fst (positionCouple fid people p cX cY gen ch pa s)) = cX"
  by (simp add: positionCouple_def Let_def split: option.splits)

lemma spouseAvailable_Some:
  "spouseAvailable people p s = Some sp \<longleftrightarrow> getSpouse p people = Some sp \<and> pid sp \<notin> positioned s"
  by (auto simp: spouseAvailable_def split: option.splits)

lemma positionCouple_single:
  assumes "spouseAvailable people p s = None"
  shows "snd (positionCouple fid people p cX cY gen ch pa s) =
         pushNode fid p cX cY gen False ch pa s"
  using assms by (simp add: positionCouple_def spouseAvailable_def Let_def)

lemma positionCouple_couple:
  assumes "spouseAvailable people p s = Some sp"
  shows "snd (positionCouple fid people p cX cY gen ch pa s) =
     (let l = (if gender p = Male then p else sp);
          r = (if gender p = Male then sp else p);
          lw = calculateNodeWidth (name l);
          rw = calculateNodeWidth (name r);
          total = calculateNodeWidth (name p) + calculateNodeWidth (name sp) + SPOUSE_GAP;
          lX = cX - total / 2 + lw / 2;
          rX = cX + total / 2 - rw / 2
      in pushConnection (spouseConnection l r lX lw rX rw cY)
           (pushNode fid r rX cY gen (pid r \<noteq> fid) ch pa
              (pushNode fid l lX cY gen (pid l \<noteq> fid) ch pa s)))"
  using assms by (simp add: positionCouple_def spouseAvailable_def Let_def)

lemma getSpouse_values: "getSpouse p people = Some q \<Longrightarrow> q \<in> snd ` set people"
  by (auto simp: getSpouse_def split: option.splits if_splits dest!: map_of_SomeD
      intro: rev_image_eqI)

lemma positionCouple_preserves:
  assumes "I s"
    and push: "\<And>q x sp t. I t \<Longrightarrow> q = p \<or> getSpouse p people = Some q \<Longrightarrow>
                 (sp \<longrightarrow> pid q \<noteq> fid) \<Longrightarrow> I (pushNode fid q x cY gen sp ch pa t)"
    and conn: "\<And>c t. I t \<Longrightarrow> ctype c = Spouse \<Longrightarrow> I (pushConnection c t)"
  shows "I (snd (positionCouple fid people p cX cY gen ch pa s))"
proof (cases "spouseAvailable people p s")
  case None
  then show ?thesis using assms(1) by (simp add: positionCouple_single push)
next
  case (Some sp)
  then have sp: "getSpouse p people = Some sp" by (simp add: spouseAvailable_Some)
  show ?thesis
    unfolding positionCouple_couple [OF Some] Let_def
    by (intro conn push assms(1)) (auto simp: sp)
qed

lemma layoutPasses_couple_preserves:
  assumes fp: "map_of people fid = Some fp"
    and init: "I initialState"
    and couple: "\<And>c x y g ch pa t. I t \<Longrightarrow> c \<in> snd ` set people \<Longrightarrow> - MAX_LAYERS_UP \<le> g \<Longrightarrow>
                   g \<le> MAX_LAYERS_DOWN \<Longrightarrow>
                   I (snd (positionCouple fid people c x y g ch pa t))"
    and conn: "\<And>c t. I t \<Longrightarrow> ctype c = ParentChild \<Longrightarrow> I (pushConnection c t)"
  shows "I (layoutPasses fid people fp)"
proof -
  have fpv: "fp \<in> snd ` set people" using fp by (auto dest!: map_of_SomeD intro: rev_image_eqI)
  define s1 where "s1 = snd (positionCouple fid people fp 0 0 0 False False initialState)"
  define s2 where "s2 = positionDescendants fid people fp 0 0 0 0 s1"
  have 1: "I s1" unfolding s1_def
    by (rule couple [OF init fpv]) (simp_all add: MAX_LAYERS_UP_def MAX_LAYERS_DOWN_def)
  have 2: "I s2" unfolding s2_def
    by (rule positionDescendants_preserves [where I = I, OF conn 1])
       (auto intro!: couple simp: MAX_LAYERS_UP_def MAX_LAYERS_DOWN_def)
  have 3: "I (positionAncestors fid people fid 0 0 0 0 s2)"
    by (rule positionAncestors_preserves [where I = I, OF conn 2])
       (auto intro!: couple simp: MAX_LAYERS_UP_def MAX_LAYERS_DOWN_def)
  show ?thesis
    using 3 unfolding s2_def s1_def by (simp add: layoutPasses_def case_prod_beta Let_def)
qed

lemma layoutPasses_preserves:
  assumes fp: "map_of people fid = Some fp"
    and init: "I initialState"
    and push: "\<And>q x y g sp ch pa t. I t \<Longrightarrow> q \<in> snd ` set people \<Longrightarrow> - MAX_LAYERS_UP \<le> g \<Longrightarrow>
                 g \<le> MAX_LAYERS_DOWN \<Longrightarrow> (sp \<longrightarrow> pid q \<noteq> fid) \<Longrightarrow>
                 I (pushNode fid q x y g sp ch pa t)"
    and conn: "\<And>c t. I t \<Longrightarrow> I (pushConnection c t)"
  shows "I (layoutPasses fid people fp)"
proof (rule layoutPasses_couple_preserves [where I = I, OF fp init])
  fix c x y g ch pa t
  assume "I t" "c \<in> snd ` set people" "- MAX_LAYERS_UP \<le> g" "g \<le> MAX_LAYERS_DOWN"
  then show "I (snd (positionCouple fid people c x y g ch pa t))"
    by (intro positionCouple_preserves [where I = I] push conn) (auto dest: getSpouse_values)
next
  fix c :: Connection and t
  assume "I t" then show "I (pushConnection c t)" by (rule conn)
qed

lemma computeLayout_nodes:
  "nodes (computeLayout fid people) =
     (case map_of people fid of None \<Rightarrow> [] | Some fp \<Rightarrow> s_nodes (layoutPasses fid people fp))"
  by (simp add: computeLayout_def Let_def split: option.splits)


section \<open>One node per person\<close>

lemma placedOnce_pushNode: "placedOnce s \<Longrightarrow> placedOnce (pushNode fid q x y g sp ch pa s)"
  by (auto simp: placedOnce_def pushNode_def ids_of_def)

lemma placedOnce_pushConnection: "placedOnce s \<Longrightarrow> placedOnce (pushConnection c s)"
  by (simp add: placedOnce_def)

lemma placedOnce_initialState: "placedOnce initialState"
  by (simp add: placedOnce_def initialState_def ids_of_def)

lemma placedOnce_layoutPasses:
  "map_of people fid = Some fp \<Longrightarrow> placedOnce (layoutPasses fid people fp)"
  by (rule layoutPasses_preserves [where I = placedOnce])
     (auto intro: placedOnce_initialState placedOnce_pushNode placedOnce_pushConnection)

lemma pushNode_new:
  "\<exists>new. s_nodes (pushNode fid q x y g sp ch pa s) = s_nodes s @ new
     \<and> (\<forall>n\<in>set new. pid (person n) \<notin> positioned s)
     \<and> distinct (ids_of new)
     \<and> positioned (pushNode fid q x y g sp ch pa s) = positioned s \<union> set (ids_of new)
     \<and> (pid q \<in> positioned s \<longrightarrow> new = [])
     \<and> pid q \<in> positioned (pushNode fid q x y g sp ch pa s)"
  by (cases "pid q \<in> positioned s") (auto simp: pushNode_def ids_of_def)

lemma positionCouple_new:
  "\<exists>new. s_nodes (snd (positionCouple fid people p cX cY gen ch pa s)) = s_nodes s @ new
     \<and> (\<forall>n\<in>set new. pid (person n) \<notin> positioned s)
     \<and> distinct (ids_of new)
     \<and> positioned (snd (positionCouple fid people p cX cY gen ch pa s))
         = positioned s \<union> set (ids_of new)"
proof (cases "spouseAvailable people p s")
  case None
  show ?thesis unfolding positionCouple_single [OF None]
    using pushNode_new [of fid p cX cY gen False ch pa s] by blast
next
  case (Some sp)
  define l where "l = (if gender p = Male then p else sp)"
  define r where "r = (if gender p = Male then sp else p)"
  define lX where "lX = cX - (calculateNodeWidth (name p) + calculateNodeWidth (name sp)
                       + SPOUSE_GAP) / 2 + calculateNodeWidth (name l) / 2"
  define rX where "rX = cX + (calculateNodeWidth (name p) + calculateNodeWidth (name sp)
                       + SPOUSE_GAP) / 2 - calculateNodeWidth (name r) / 2"
  define s1 where "s1 = pushNode fid l lX cY gen (pid l \<noteq> fid) ch pa s"
  define s2 where "s2 = pushNode fid r rX cY gen (pid r \<noteq> fid) ch pa s1"
  obtain new1 where n1: "s_nodes s1 = s_nodes s @ new1"
      "\<forall>n\<in>set new1. pid (person n) \<notin> positioned s" "distinct (ids_of new1)"
      "positioned s1 = positioned s \<union> set (ids_of new1)"
    unfolding s1_def using pushNode_new [of fid l lX cY gen "pid l \<noteq> fid" ch pa s] by blast
  obtain new2 where n2: "s_nodes s2 = s_nodes s1 @ new2"
      "\<forall>n\<in>set new2. pid (person n) \<notin> positioned s1" "distinct (ids_of new2)"
      "positioned s2 = positioned s1 \<union> set (ids_of new2)"
    unfolding s2_def using pushNode_new [of fid r rX cY gen "pid r \<noteq> fid" ch pa s1] by blast
  have eq: "snd (positionCouple fid people p cX cY gen ch pa s) =
            pushConnection (spouseConnection l r lX (calculateNodeWidth (name l)) rX
                              (calculateNodeWidth (name r)) cY) s2"
    unfolding positionCouple_couple [OF Some] Let_def s2_def s1_def lX_def rX_def l_def r_def
    by simp
  have "s_nodes s2 = s_nodes s @ (new1 @ new2)" using n1 n2 by simp
  moreover have "\<forall>n\<in>set (new1 @ new2). pid (person n) \<notin> positioned s" using n1 n2 by auto
  moreover have "distinct (ids_of (new1 @ new2))"
  proof -
    have "set (ids_of new1) \<inter> set (ids_of new2) = {}"
    proof -
      have False if "x \<in> set (ids_of new1)" "x \<in> set (ids_of new2)" for x
      proof -
        from that(2) obtain n where "n \<in> set new2" "pid (person n) = x"
          by (auto simp: ids_of_def)
        with n2(2) have "x \<notin> positioned s1" by blast
        with n1(4) that(1) show False by simp
      qed
      then show ?thesis by blast
    qed
    moreover have "ids_of (new1 @ new2) = ids_of new1 @ ids_of new2" by (simp add: ids_of_def)
    ultimately show ?thesis using n1(3) n2(3) by simp
  qed
  moreover have "positioned s2 = positioned s \<union> set (ids_of (new1 @ new2))"
    using n1 n2 by (auto simp: ids_of_def)
  ultimately show ?thesis unfolding eq by (intro exI [of _ "new1 @ new2"]) simp
qed

text \<open>
  Claim C4. Every person id appears on at most one node of the result of
  \<open>computeLayout\<close>, for every graph and focused id. A couple placement keeps the nodes
  already pushed as they are and pushes nodes only for ids that the positioned set does
  not hold yet, so a person reached again (as a spouse and as a child or parent) gets no
  second node.
\<close>

theorem idempotent_placement:
  "distinct (ids_of (nodes (computeLayout fid people)))
   \<and> (\<exists>new. s_nodes (snd (positionCouple fid people p cX cY gen ch pa s)) = s_nodes s @ new
          \<and> (\<forall>n\<in>set new. pid (person n) \<notin> positioned s)
          \<and> distinct (ids_of new)
          \<and> positioned (snd (positionCouple fid people p cX cY gen ch pa s))
              = positioned s \<union> set (ids_of new))"
proof
  show "distinct (ids_of (nodes (computeLayout fid people)))"
  proof (cases "map_of people fid")
    case None
    then show ?thesis by (simp add: computeLayout_nodes ids_of_def)
  next
    case (Some fp)
    then show ?thesis using placedOnce_layoutPasses [OF Some]
      by (simp add: computeLayout_nodes placedOnce_def)
  qed
qed (rule positionCouple_new)

section \<open>Generation bound\<close>

lemma generationsWithin_layoutPasses:
  "map_of people fid = Some fp \<Longrightarrow> generationsWithin (layoutPasses fid people fp)"
  by (rule layoutPasses_preserves [where I = generationsWithin])
     (auto simp: generationsWithin_def pushNode_def initialState_def)

text \<open>
  Claim C5. Every node of the result of \<open>computeLayout\<close> has a generation index in
  \<open>[- MAX_LAYERS_UP, MAX_LAYERS_DOWN]\<close>, for every graph and focused id.
\<close>

theorem generation_bound:
  "\<forall>n\<in>set (nodes (computeLayout fid people)).
     - MAX_LAYERS_UP \<le> generation n \<and> generation n \<le> MAX_LAYERS_DOWN"
proof (cases "map_of people fid")
  case None
  then show ?thesis by (simp add: computeLayout_nodes)
next
  case (Some fp)
  then show ?thesis using generationsWithin_layoutPasses [OF Some]
    by (simp add: computeLayout_nodes generationsWithin_def)
qed

section \<open>The two invariants on example graphs\<close>

theorem idempotent_placement_witness:
  "ids_of (nodes (computeLayout ''X'' spouseAlsoChild)) = [''X'', ''Y'']
   \<and> distinct (ids_of (nodes (computeLayout ''X'' spouseAlsoChild)))
   \<and> (\<exists>new. s_nodes (snd (positionCouple ''X'' spouseAlsoChild (snd (mkPerson ''Y'' Female (Some ''X'') []))
                          0 220 1 True False (afterFocus ''X'' spouseAlsoChild)))
             = s_nodes (afterFocus ''X'' spouseAlsoChild) @ new
          \<and> list_all (\<lambda>n. pid (person n) \<notin> positioned (afterFocus ''X'' spouseAlsoChild)) new)"
proof -
  have a: "ids_of (nodes (computeLayout ''X'' spouseAlsoChild)) = [''X'', ''Y'']"
    by code_simp
  from idempotent_placement [of "''X''" spouseAlsoChild "snd (mkPerson ''Y'' Female (Some ''X'') [])"
      0 220 1 True False "afterFocus ''X'' spouseAlsoChild"]
  show ?thesis using a by (auto simp: list_all_iff)
qed

theorem generation_bound_witness:
  "map generation (nodes (computeLayout ''F'' threeGenerations)) = [0, 0, 1, 1, 1, -1, -1]
   \<and> list_all (\<lambda>n. - MAX_LAYERS_UP \<le> generation n \<and> generation n \<le> MAX_LAYERS_DOWN)
        (nodes (computeLayout ''F'' threeGenerations))"
proof -
  have a: "map generation (nodes (computeLayout ''F'' threeGenerations)) = [0, 0, 1, 1, 1, -1, -1]"
    by code_simp
  from generation_bound [of "''F''" threeGenerations]
  show ?thesis using a by (simp add: list_all_iff)
qed

section \<open>The two parts of the model agree where nothing is inherited\<close>

text \<open>
  In a graph in which no id names an inherited member, every \<^verbatim>\<open>people[k]\<close> of the engine
  finds an own entry or nothing, no exception is raised, and the engine computes what the
  first part of the model computes.
\<close>

lemma andThen_simps [simp]:
  "andThen (Inr v) f = f v"
  "andThen (Inl e) f = Inl e"
  by (simp_all add: andThen_def)

lemma allOf_map_Inr:
  assumes "\<And>x. x \<in> set xs \<Longrightarrow> f x = Inr (g x)"
  shows "allOf (map f xs) = Inr (map g xs)"
  using assms by (induction xs) simp_all

lemma lookupEntry_own:
  assumes "ownLookup people k"
  shows "lookupEntry people k = map_option Stored (map_of people k)"
proof (cases "map_of people k")
  case None
  then have "k \<notin> fst ` set people" by (simp add: map_of_eq_None_iff)
  with None assms show ?thesis by (simp add: ownLookup_def lookupEntry_def)
next
  case (Some p)
  then show ?thesis by (simp add: lookupEntry_def)
qed

lemma prototypeFreeD:
  assumes "prototypeFree people" "p \<in> snd ` set people"
  shows "ownLookup people (pid p)"
    and "spouseId p = Some sid \<Longrightarrow> ownLookup people sid"
    and "c \<in> set (childrenIds p) \<Longrightarrow> ownLookup people c"
  using assms unfolding prototypeFree_def carriedIds_def list_all_iff by auto

lemma getSpouse_js_Stored:
  assumes "prototypeFree people" "p \<in> snd ` set people"
  shows "getSpouse_js (Stored p) people = map_option Stored (getSpouse p people)"
proof (cases "spouseId p")
  case None
  then show ?thesis by (simp add: getSpouse_js_def getSpouse_def)
next
  case (Some sid)
  from prototypeFreeD(2) [OF assms Some] have "ownLookup people sid" .
  then show ?thesis using Some by (simp add: getSpouse_js_def getSpouse_def lookupEntry_own)
qed

lemma calculateNodeWidth_js_Some [simp]:
  "calculateNodeWidth_js (Some n) = Inr (calculateNodeWidth n)"
  by (simp add: calculateNodeWidth_js_def)

lemma calculateCoupleWidth_js_Stored:
  "calculateCoupleWidth_js (Stored p) (map_option Stored sp) = Inr (calculateCoupleWidth p sp)"
  by (cases sp) (simp_all add: calculateCoupleWidth_js_def calculateCoupleWidth_def)

lemma calculateSubtreeWidth_js_own:
  assumes "prototypeFree people" "ownLookup people personId"
  shows "calculateSubtreeWidth_js (Some personId) people maxDepth currentDepth (Some ` visited) =
         Inr (fst (calculateSubtreeWidth personId people maxDepth currentDepth visited),
              Some ` snd (calculateSubtreeWidth personId people maxDepth currentDepth visited))"
  using assms
proof (induction personId people maxDepth currentDepth visited
    rule: calculateSubtreeWidth.induct)
  case (1 personId people maxDepth currentDepth visited)
  note pf = "1.prems"(1) and own = "1.prems"(2)
  have look: "lookupEntry people (idText (Some personId)) = map_option Stored (map_of people personId)"
    by (simp add: idText_def lookupEntry_own [OF own])
  have mem: "Some k \<in> Some ` V \<longleftrightarrow> k \<in> V" for k :: string and V
    by auto
  show ?case
  proof (cases "maxDepth < currentDepth \<or> personId \<in> visited")
    case True
    then show ?thesis
      by (subst calculateSubtreeWidth_js.simps, subst (1 2) calculateSubtreeWidth.simps)
         (auto simp: mem)
  next
    case guard: False
    then have g: "\<not> maxDepth < currentDepth" "personId \<notin> visited" by auto
    show ?thesis
    proof (cases "map_of people personId")
      case None
      then show ?thesis using g
        by (subst calculateSubtreeWidth_js.simps, subst (1 2) calculateSubtreeWidth.simps)
           (simp add: mem look Let_def)
    next
      case (Some p)
      then have pv: "p \<in> snd ` set people" by (auto dest!: map_of_SomeD intro: rev_image_eqI)
      define V where "V = (case getSpouse p people of
                             Some s \<Rightarrow> insert (pid s) (insert personId visited)
                           | None \<Rightarrow> insert personId visited)"
      define kids where "kids = filter (\<lambda>c. map_of people c \<noteq> None \<and> c \<notin> V) (childrenIds p)"
      have sp: "getSpouse_js (Stored p) people = map_option Stored (getSpouse p people)"
        by (rule getSpouse_js_Stored [OF pf pv])
      have V_js: "(case getSpouse_js (Stored p) people of
                     Some s \<Rightarrow> insert (entryId s) (insert (Some personId) (Some ` visited))
                   | None \<Rightarrow> insert (Some personId) (Some ` visited)) = Some ` V"
        unfolding sp by (cases "getSpouse p people") (simp_all add: V_def)
      have cw_js: "calculateCoupleWidth_js (Stored p) (getSpouse_js (Stored p) people) =
                   Inr (calculateCoupleWidth p (getSpouse p people))"
        unfolding sp by (rule calculateCoupleWidth_js_Stored)
      have kids_js: "filter (\<lambda>c. (\<exists>y. lookupEntry people c = Some y) \<and> c \<notin> V) (childrenIds p)
                     = kids"
        unfolding kids_def
        by (rule filter_cong [OF refl])
           (simp add: lookupEntry_own [OF prototypeFreeD(3) [OF pf pv]])
      have kids_eq: "filter (\<lambda>c. (\<exists>y. map_of people c = Some y) \<and> c \<notin> V) (childrenIds p) = kids"
        by (simp add: kids_def)
      have snd_eq: "snd (calculateSubtreeWidth personId people maxDepth currentDepth visited) = V"
        using g Some
        by (subst calculateSubtreeWidth.simps) (simp add: Let_def V_def split: option.splits)
      show ?thesis
      proof (cases "childrenIds p = [] \<or> maxDepth \<le> currentDepth")
        case True
        have fst_eq: "fst (calculateSubtreeWidth personId people maxDepth currentDepth visited) =
                      calculateCoupleWidth p (getSpouse p people)"
          using g Some True
          by (subst calculateSubtreeWidth.simps) (auto simp add: Let_def)
        show ?thesis unfolding fst_eq snd_eq using g Some True
          by (subst calculateSubtreeWidth_js.simps)
             (auto simp add: mem look Let_def V_js cw_js)
      next
        case leaf: False
        have IH: "calculateSubtreeWidth_js (Some c) people maxDepth (currentDepth + 1) (Some ` V) =
                  Inr (fst (calculateSubtreeWidth c people maxDepth (currentDepth + 1) V),
                       Some ` snd (calculateSubtreeWidth c people maxDepth (currentDepth + 1) V))"
          if c: "c \<in> set kids" for c
        proof -
          from c have "c \<in> set (childrenIds p)" by (simp add: kids_def)
          then have oc: "ownLookup people c" by (rule prototypeFreeD(3) [OF pf pv])
          show ?thesis
            by (rule "1.IH" [OF g(1) g(2) refl Some refl _ refl leaf refl _ pf oc])
               (use c in \<open>simp_all add: V_def kids_def\<close>)
        qed
        have all: "allOf (map (\<lambda>c. calculateSubtreeWidth_js (Some c) people maxDepth
                                      (currentDepth + 1) (Some ` V)) kids) =
                   Inr (map (\<lambda>c. (fst (calculateSubtreeWidth c people maxDepth (currentDepth + 1) V),
                                   Some ` snd (calculateSubtreeWidth c people maxDepth
                                                 (currentDepth + 1) V))) kids)"
          by (rule allOf_map_Inr) (rule IH)
        have fst_eq: "fst (calculateSubtreeWidth personId people maxDepth currentDepth visited) =
                      max (calculateCoupleWidth p (getSpouse p people))
                        (childrenWidth_loop
                           (map (\<lambda>c. fst (calculateSubtreeWidth c people maxDepth
                                             (currentDepth + 1) V)) kids))"
          using g Some leaf
          by (subst calculateSubtreeWidth.simps)
             (simp add: Let_def V_def [symmetric] kids_eq)
        show ?thesis unfolding fst_eq snd_eq using g Some leaf
          by (subst calculateSubtreeWidth_js.simps)
             (simp add: mem look Let_def V_js cw_js kids_js all comp_def)
      qed
    qed
  qed
qed


lemma Some_mem_image: "Some k \<in> Some ` V \<longleftrightarrow> k \<in> V"
  by auto

lemma state_js_simps [simp]:
  "j_nodes (state_js s) = map node_js (s_nodes s)"
  "j_connections (state_js s) = map connection_js (s_connections s)"
  "j_positioned (state_js s) = Some ` positioned s"
  by (simp_all add: state_js_def)

lemma createNode_js_Stored:
  "createNode_js fid (Stored p) x y g a b c = Inr (node_js (createNode fid p x y g a b c))"
  by (simp add: createNode_js_def createNode_def node_js_def)

lemma pushNode_js_Stored:
  "pushNode_js fid (Stored p) x y g a b c (state_js s) =
   Inr (state_js (pushNode fid p x y g a b c s))"
  by (simp add: pushNode_js_def pushNode_def createNode_js_Stored Some_mem_image)

lemma pushConnection_js_lift:
  "pushConnection_js (connection_js c) (state_js s) = state_js (pushConnection c s)"
  by (simp add: pushConnection_js_def pushConnection_def state_js_def)

lemma spouseConnection_js_Stored:
  "spouseConnection_js (Stored l) (Stored r) lX lw rX rw cY =
   connection_js (spouseConnection l r lX lw rX rw cY)"
  by (simp add: spouseConnection_js_def spouseConnection_def connection_js_def idText_def)

lemma parentChildConnection_js_Some:
  "parentChildConnection_js (Some a) (Some b) fx fy tx ty =
   connection_js (parentChildConnection a b fx fy tx ty)"
  by (simp add: parentChildConnection_js_def parentChildConnection_def connection_js_def
      idText_def)

lemma positionCouple_js_Stored:
  assumes "prototypeFree people" "p \<in> snd ` set people"
  shows "positionCouple_js fid people (Stored p) cX cY gen ch pa (state_js s) =
         Inr (fst (positionCouple fid people p cX cY gen ch pa s),
              state_js (snd (positionCouple fid people p cX cY gen ch pa s)))"
proof (cases "getSpouse p people")
  case None
  then show ?thesis
    by (simp add: positionCouple_js_def positionCouple_def getSpouse_js_Stored [OF assms]
        pushNode_js_Stored Let_def)
next
  case (Some sp)
  show ?thesis
  proof (cases "pid sp \<in> positioned s")
    case True
    with Some show ?thesis
      by (simp add: positionCouple_js_def positionCouple_def getSpouse_js_Stored [OF assms]
          pushNode_js_Stored Let_def Some_mem_image)
  next
    case False
    with Some show ?thesis
      by (cases "gender p = Male")
         (simp_all add: positionCouple_js_def positionCouple_def getSpouse_js_Stored [OF assms]
            pushNode_js_Stored Let_def Some_mem_image spouseConnection_js_Stored
            pushConnection_js_lift)
  qed
qed

lemma find_node_js:
  "find (\<lambda>n. entryId (j_person n) = Some k) (map node_js ns) =
   map_option node_js (find (\<lambda>n. pid (person n) = k) ns)"
  by (induction ns) (simp_all add: node_js_def)

lemma find_focused_js:
  "find j_isFocused (map node_js ns) = map_option node_js (find isFocused ns)"
  by (induction ns) (simp_all add: node_js_def)

lemma descendants_loop_js_Stored:
  assumes pf: "prototypeFree people"
    and vals: "\<And>c. c \<in> fst ` set items \<Longrightarrow> c \<in> snd ` set people"
    and recurse: "\<And>c x t. c \<in> fst ` set items \<Longrightarrow>
                    recurse_js (Stored c) x (state_js t) = Inr (state_js (recurse c x t))"
  shows "descendants_loop_js recurse_js fid people (Stored parent) pcx pY childY gen
           (map (\<lambda>(c, w). (Stored c, w)) items) cur (state_js s) =
         Inr (state_js (descendants_loop recurse fid people parent pcx pY childY gen items cur s))"
  using vals recurse
proof (induction items arbitrary: cur s)
  case Nil
  then show ?case by simp
next
  case (Cons a items)
  obtain c w where a: "a = (c, w)" by (cases a)
  have cv: "c \<in> snd ` set people" by (rule Cons.prems(1)) (simp add: a)
  define r where "r = positionCouple fid people c (cur + w / 2) childY (gen + 1) True False s"
  define s2 where "s2 = (case find (\<lambda>n. pid (person n) = pid c) (s_nodes (snd r)) of
                  Some childNode \<Rightarrow>
                    pushConnection
                      (parentChildConnection (pid parent) (pid c)
                         pcx (pY + NODE_HEIGHT / 2)
                         (nx childNode) (childY - NODE_HEIGHT / 2)) (snd r)
                | None \<Rightarrow> snd r)"
  have couple: "positionCouple_js fid people (Stored c) (cur + w / 2) childY (gen + 1) True False
                  (state_js s) = Inr (fst r, state_js (snd r))"
    unfolding r_def by (rule positionCouple_js_Stored [OF pf cv])
  have conn: "(case find (\<lambda>n. entryId (j_person n) = Some (pid c)) (map node_js (s_nodes (snd r))) of
                 Some childNode \<Rightarrow>
                   pushConnection_js
                     (parentChildConnection_js (entryId (Stored parent)) (entryId (Stored c))
                        pcx (pY + NODE_HEIGHT / 2)
                        (j_x childNode) (childY - NODE_HEIGHT / 2)) (state_js (snd r))
               | None \<Rightarrow> state_js (snd r)) = state_js s2"
    unfolding s2_def find_node_js
    by (cases "find (\<lambda>n. pid (person n) = pid c) (s_nodes (snd r))")
       (simp_all add: parentChildConnection_js_Some pushConnection_js_lift node_js_def)
  have rec: "recurse_js (Stored c) (centerX (fst r)) (state_js s2) =
             Inr (state_js (recurse c (centerX (fst r)) s2))"
    by (rule Cons.prems(2)) (simp add: a)
  have rest: "descendants_loop_js recurse_js fid people (Stored parent) pcx pY childY gen
           (map (\<lambda>(c, w). (Stored c, w)) items) (cur + w + HORIZONTAL_GAP)
           (state_js (recurse c (centerX (fst r)) s2)) =
         Inr (state_js (descendants_loop recurse fid people parent pcx pY childY gen items
                          (cur + w + HORIZONTAL_GAP) (recurse c (centerX (fst r)) s2)))"
    by (rule Cons.IH) (use Cons.prems in \<open>auto simp: a\<close>)
  have lhs: "descendants_loop_js recurse_js fid people (Stored parent) pcx pY childY gen
           (map (\<lambda>(c, w). (Stored c, w)) (a # items)) cur (state_js s) =
         Inr (state_js (descendants_loop recurse fid people parent pcx pY childY gen items
                          (cur + w + HORIZONTAL_GAP) (recurse c (centerX (fst r)) s2)))"
    by (simp add: a Let_def couple conn rec rest)
  have rhs: "descendants_loop recurse fid people parent pcx pY childY gen (a # items) cur s =
             descendants_loop recurse fid people parent pcx pY childY gen items
               (cur + w + HORIZONTAL_GAP) (recurse c (centerX (fst r)) s2)"
    unfolding s2_def r_def by (simp add: a Let_def case_prod_beta)
  show ?case by (simp only: lhs rhs)
qed

lemma map_filter_lookupEntry:
  assumes "\<And>k. k \<in> set ids \<Longrightarrow> ownLookup people k"
  shows "List.map_filter (lookupEntry people) ids = map Stored (List.map_filter (map_of people) ids)"
  using assms
proof (induction ids)
  case Nil
  then show ?case by (simp add: List.map_filter_simps)
next
  case (Cons k ids)
  have "lookupEntry people k = map_option Stored (map_of people k)"
    by (rule lookupEntry_own) (simp add: Cons.prems)
  then show ?case using Cons
    by (cases "map_of people k") (simp_all add: List.map_filter_simps)
qed

lemma childrenOf_js_Stored:
  assumes "prototypeFree people" "p \<in> snd ` set people"
  shows "childrenOf_js people (Stored p) (state_js s) = Inr (map Stored (childrenOf people p s))"
  by (simp add: childrenOf_js_def childrenOf_def
      map_filter_lookupEntry [OF prototypeFreeD(3) [OF assms]] filter_map comp_def Some_mem_image)

lemma positionDescendants_js_Stored:
  "prototypeFree people \<Longrightarrow> parent \<in> snd ` set people \<Longrightarrow>
   positionDescendants_js fid people (Stored parent) pcx pY gen depth (state_js s) =
   Inr (state_js (positionDescendants fid people parent pcx pY gen depth s))"
proof (induction fid people parent pcx pY gen depth s rule: positionDescendants.induct)
  case (1 fid people parent pcx pY gen depth s)
  note pf = "1.prems"(1) and pv = "1.prems"(2)
  define children where "children = childrenOf people parent s"
  have ch: "childrenOf_js people (Stored parent) (state_js s) = Inr (map Stored children)"
    unfolding children_def by (rule childrenOf_js_Stored [OF pf pv])
  have cv: "c \<in> snd ` set people" if "c \<in> set children" for c
    using that unfolding children_def by (rule childrenOf_values)
  show ?case
  proof (cases "depth \<ge> MAX_LAYERS_DOWN \<or> children = []")
    case True
    then show ?thesis
      by (subst positionDescendants_js.simps, subst positionDescendants.simps)
         (auto simp: ch children_def [symmetric])
  next
    case False
    then have d: "\<not> MAX_LAYERS_DOWN \<le> depth" and ne: "children \<noteq> []" by auto
    define childY where "childY = pY + VERTICAL_GAP + NODE_HEIGHT"
    define childWidths where
      "childWidths = map (\<lambda>child. fst (calculateSubtreeWidth (pid child) people
                                     (MAX_LAYERS_DOWN - depth - 1) 0 (positioned s))) children"
    define adjustedWidths where
      "adjustedWidths = map (\<lambda>(w, child). max w (calculateCoupleWidth child (getSpouse child people)))
                          (zip childWidths children)"
    define currentX where
      "currentX = pcx - (foldl (\<lambda>sum w. sum + w) 0 adjustedWidths
                           + (real (length children) - 1) * HORIZONTAL_GAP) / 2"
    have widths: "allOf (map (\<lambda>child.
                     andThen (calculateSubtreeWidth_js (entryId child) people
                                (MAX_LAYERS_DOWN - depth - 1) 0 (Some ` positioned s))
                       (\<lambda>r. Inr (fst r)))
                  (map Stored children)) = Inr childWidths"
      unfolding childWidths_def map_map
      by (rule allOf_map_Inr)
         (simp add: calculateSubtreeWidth_js_own [OF pf prototypeFreeD(1) [OF pf cv]])
    have adjusted: "allOf (map (\<lambda>(w, child).
                       andThen (calculateCoupleWidth_js child (getSpouse_js child people))
                         (\<lambda>minWidth. Inr (max w minWidth)))
                    (zip childWidths (map Stored children))) = Inr adjustedWidths"
      unfolding adjustedWidths_def zip_map2 map_map
      by (rule allOf_map_Inr)
         (auto simp: getSpouse_js_Stored [OF pf cv] calculateCoupleWidth_js_Stored
            dest!: set_zip_rightD)
    have items: "zip (map Stored children) adjustedWidths =
                 map (\<lambda>(c, w). (Stored c, w)) (zip children adjustedWidths)"
      by (simp add: zip_map1)
    have loop: "descendants_loop_js
                  (\<lambda>child cX s'. positionDescendants_js fid people child cX childY (gen + 1)
                                    (depth + 1) s')
                  fid people (Stored parent) pcx pY childY gen
                  (map (\<lambda>(c, w). (Stored c, w)) (zip children adjustedWidths)) currentX (state_js s) =
                Inr (state_js (descendants_loop
                       (\<lambda>child cX s'. positionDescendants fid people child cX childY (gen + 1)
                                         (depth + 1) s')
                       fid people parent pcx pY childY gen (zip children adjustedWidths)
                       currentX s))"
    proof (rule descendants_loop_js_Stored [OF pf])
      fix c assume "c \<in> fst ` set (zip children adjustedWidths)"
      then have "c \<in> set children" by (auto dest: set_zip_leftD)
      then show "c \<in> snd ` set people" by (rule cv)
    next
      fix c x t assume c: "c \<in> fst ` set (zip children adjustedWidths)"
      then have "c \<in> set children" by (auto dest: set_zip_leftD)
      then have cvv: "c \<in> snd ` set people" by (rule cv)
      show "positionDescendants_js fid people (Stored c) x childY (gen + 1) (depth + 1) (state_js t) =
            Inr (state_js (positionDescendants fid people c x childY (gen + 1) (depth + 1) t))"
        unfolding childY_def
        by (rule "1.IH" [OF d refl _ refl refl refl refl refl _ pf cvv])
           (use ne c in \<open>simp_all add: children_def childWidths_def adjustedWidths_def\<close>)
    qed
    have lhs: "positionDescendants_js fid people (Stored parent) pcx pY gen depth (state_js s) =
               Inr (state_js (descendants_loop
                       (\<lambda>child cX s'. positionDescendants fid people child cX childY (gen + 1)
                                         (depth + 1) s')
                       fid people parent pcx pY childY gen (zip children adjustedWidths)
                       currentX s))"
      unfolding childY_def currentX_def
      by (subst positionDescendants_js.simps)
         (simp only: d ne if_False ch andThen_simps map_is_Nil_conv Let_def state_js_simps
            widths adjusted items length_map loop [unfolded childY_def currentX_def])
    have rhs: "positionDescendants fid people parent pcx pY gen depth s =
               descendants_loop
                 (\<lambda>child cX s'. positionDescendants fid people child cX childY (gen + 1)
                                   (depth + 1) s')
                 fid people parent pcx pY childY gen (zip children adjustedWidths) currentX s"
      using d ne
      unfolding children_def childY_def childWidths_def adjustedWidths_def currentX_def
      by (subst positionDescendants.simps) (simp add: Let_def)
    show ?thesis by (simp only: lhs rhs)
  qed
qed

lemma positionAncestors_js_own:
  "prototypeFree people \<Longrightarrow>
   positionAncestors_js fid people k pcx pY gen depth (state_js s) =
   Inr (state_js (positionAncestors fid people k pcx pY gen depth s))"
proof (induction fid people k pcx pY gen depth s rule: positionAncestors.induct)
  case (1 fid people k pcx pY gen depth s)
  note pf = "1.prems"(1)
  have flt: "filter (\<lambda>p. Some (pid p) \<notin> Some ` positioned s) (findParents k people) =
             filter (\<lambda>p. pid p \<notin> positioned s) (findParents k people)"
    by (simp add: Some_mem_image)
  show ?case
  proof (cases "depth \<ge> MAX_LAYERS_UP")
    case True
    then show ?thesis
      by (subst positionAncestors_js.simps, subst positionAncestors.simps) simp
  next
    case d: False
    show ?thesis
    proof (cases "filter (\<lambda>p. pid p \<notin> positioned s) (findParents k people)")
      case Nil
      then show ?thesis using d
        by (subst positionAncestors_js.simps, subst positionAncestors.simps) (simp add: flt)
    next
      case (Cons parent rest)
      then have "parent \<in> set (filter (\<lambda>p. pid p \<notin> positioned s) (findParents k people))"
        by simp
      then have "parent \<in> set (findParents k people)" by simp
      then have pv: "parent \<in> snd ` set people" by (rule findParents_values)
      define parentY where "parentY = pY - VERTICAL_GAP - NODE_HEIGHT"
      define r where "r = positionCouple fid people parent pcx parentY (gen - 1) False True s"
      define s2 where "s2 = (case find (\<lambda>n. pid (person n) = k) (s_nodes (snd r)) of
                        Some childNode \<Rightarrow>
                          pushConnection
                            (parentChildConnection (pid parent) k
                               (centerX (fst r)) (parentY + NODE_HEIGHT / 2)
                               (nx childNode) (pY - NODE_HEIGHT / 2)) (snd r)
                      | None \<Rightarrow> snd r)"
      have couple: "positionCouple_js fid people (Stored parent) pcx parentY (gen - 1) False True
                      (state_js s) = Inr (fst r, state_js (snd r))"
        unfolding r_def by (rule positionCouple_js_Stored [OF pf pv])
      have conn: "(case find (\<lambda>n. entryId (j_person n) = Some k) (map node_js (s_nodes (snd r))) of
                     Some childNode \<Rightarrow>
                       pushConnection_js
                         (parentChildConnection_js (Some (pid parent)) (Some k)
                            (centerX (fst r)) (parentY + NODE_HEIGHT / 2)
                            (j_x childNode) (pY - NODE_HEIGHT / 2)) (state_js (snd r))
                   | None \<Rightarrow> state_js (snd r)) = state_js s2"
        unfolding s2_def find_node_js
        by (cases "find (\<lambda>n. pid (person n) = k) (s_nodes (snd r))")
           (simp_all add: parentChildConnection_js_Some pushConnection_js_lift node_js_def)
      have eq: "positionAncestors fid people k pcx pY gen depth s =
                positionAncestors fid people (pid parent) (centerX (fst r)) parentY (gen - 1)
                  (depth + 1) s2"
        unfolding s2_def r_def parentY_def using d Cons
        by (subst positionAncestors.simps) (simp add: Let_def case_prod_beta)
      have eq_js: "positionAncestors_js fid people k pcx pY gen depth (state_js s) =
                positionAncestors_js fid people (pid parent) (centerX (fst r)) parentY (gen - 1)
                  (depth + 1) (state_js s2)"
        using d Cons
        by (subst positionAncestors_js.simps)
           (simp add: flt Let_def parentY_def [symmetric] couple conn)
      have "positionAncestors_js fid people (pid parent) (centerX (fst r)) parentY (gen - 1)
                  (depth + 1) (state_js s2) =
            Inr (state_js (positionAncestors fid people (pid parent) (centerX (fst r)) parentY
                             (gen - 1) (depth + 1) s2))"
        unfolding s2_def r_def parentY_def
        by (rule "1.IH" [OF d Cons refl refl prod.collapse refl pf])
      then show ?thesis by (simp add: eq eq_js)
    qed
  qed
qed

lemma bounds_step_js_node: "bounds_step_js acc (node_js n) = bounds_step acc n"
  by (cases acc) (auto simp: bounds_step_js_def bounds_step_def node_js_def Let_def)

lemma foldl_bounds_step_js:
  "foldl bounds_step_js acc (map node_js ns) = foldl bounds_step acc ns"
  by (induction ns arbitrary: acc) (simp_all add: bounds_step_js_node)

lemma computeBounds_js_nodes: "computeBounds_js (map node_js ns) = computeBounds ns"
  by (simp add: computeBounds_js_def computeBounds_def foldl_bounds_step_js)

lemma initialState_js_lift: "initialState_js = state_js initialState"
  by (simp add: initialState_js_def initialState_def state_js_def)

lemma computeLayout_js_own:
  assumes pf: "prototypeFree people" and own: "ownLookup people fid"
  shows "computeLayout_js fid people = Inr (result_js (computeLayout fid people))"
proof (cases "map_of people fid")
  case None
  then show ?thesis
    by (simp add: computeLayout_js_def computeLayout_def lookupEntry_own [OF own] result_js_def)
next
  case (Some fp)
  then have fv: "fp \<in> snd ` set people" by (auto dest!: map_of_SomeD intro: rev_image_eqI)
  define r where "r = positionCouple fid people fp 0 0 0 False False initialState"
  define s2 where "s2 = positionDescendants fid people fp (centerX (fst r)) 0 0 0 (snd r)"
  define s3 where "s3 = positionAncestors fid people fid (centerX (fst r)) 0 0 0 s2"
  have 1: "positionCouple_js fid people (Stored fp) 0 0 0 False False initialState_js =
           Inr (fst r, state_js (snd r))"
    unfolding r_def initialState_js_lift by (rule positionCouple_js_Stored [OF pf fv])
  have 2: "positionDescendants_js fid people (Stored fp) (centerX (fst r)) 0 0 0 (state_js (snd r)) =
           Inr (state_js s2)"
    unfolding s2_def by (rule positionDescendants_js_Stored [OF pf fv])
  have 3: "positionAncestors_js fid people fid (centerX (fst r)) 0 0 0 (state_js s2) =
           Inr (state_js s3)"
    unfolding s3_def by (rule positionAncestors_js_own [OF pf])
  have l: "layoutPasses fid people fp = s3"
    unfolding s3_def s2_def r_def by (simp add: layoutPasses_def Let_def case_prod_beta)
  show ?thesis
    by (simp add: computeLayout_js_def computeLayout_def lookupEntry_own [OF own] Some 1 2 3 l
        result_js_def Let_def computeBounds_js_nodes find_focused_js)
qed

section \<open>What the engine returns, on every graph\<close>

text \<open>
  Three invariants of the result hold of whatever \<open>computeLayout_js\<close> returns, also on
  graphs in which ids name inherited members: no two nodes carry the same id (an inherited
  member has the id \<^verbatim>\<open>undefined\<close>, and at most one node has it), every generation lies
  within the two layer limits, and the node of the focused person is not flagged as a
  spouse.
\<close>

lemma andThen_Inr: "andThen m f = Inr r \<longleftrightarrow> (\<exists>v. m = Inr v \<and> f v = Inr r)"
  by (cases m) simp_all

lemma positionCouple_js_preserves:
  assumes "I s"
    and push: "\<And>q x sp t t'. I t \<Longrightarrow> (sp \<longrightarrow> entryId q \<noteq> Some fid) \<Longrightarrow>
                 pushNode_js fid q x cY gen sp ch pa t = Inr t' \<Longrightarrow> I t'"
    and conn: "\<And>c t. I t \<Longrightarrow> j_ctype c = Spouse \<Longrightarrow> I (pushConnection_js c t)"
    and run: "positionCouple_js fid people p cX cY gen ch pa s = Inr (e, s')"
  shows "I s'"
proof -
  have sc: "j_ctype (spouseConnection_js l r lX lw rX rw y) = Spouse" for l r lX lw rX rw y
    by (simp add: spouseConnection_js_def)
  show ?thesis
    using run assms(1) unfolding positionCouple_js_def Let_def
    by (auto simp: andThen_Inr split: option.splits if_splits intro!: conn [OF _ sc]
          intro: push)
qed

lemma descendants_loop_js_preserves:
  assumes "I s"
    and couple: "\<And>c w x t e t'. (c, w) \<in> set items \<Longrightarrow> I t \<Longrightarrow>
                   positionCouple_js fid people c x childY (gen + 1) True False t = Inr (e, t') \<Longrightarrow>
                   I t'"
    and conn: "\<And>c t. I t \<Longrightarrow> j_ctype c = ParentChild \<Longrightarrow> I (pushConnection_js c t)"
    and recurse: "\<And>c w x t t'. (c, w) \<in> set items \<Longrightarrow> I t \<Longrightarrow> recurse c x t = Inr t' \<Longrightarrow> I t'"
    and run: "descendants_loop_js recurse fid people parent pcx pY childY gen items cur s = Inr s'"
  shows "I s'"
  using assms
proof (induction items arbitrary: cur s)
  case Nil
  then show ?case by simp
next
  case (Cons a items)
  obtain c w where a: "a = (c, w)" by (cases a)
  from Cons.prems(5) obtain e s1 s3 where
    r1: "positionCouple_js fid people c (cur + w / 2) childY (gen + 1) True False s = Inr (e, s1)"
    and r3: "recurse c (centerX e)
               (case find (\<lambda>n. entryId (j_person n) = entryId c) (j_nodes s1) of
                  Some childNode \<Rightarrow>
                    pushConnection_js
                      (parentChildConnection_js (entryId parent) (entryId c)
                         pcx (pY + NODE_HEIGHT / 2)
                         (j_x childNode) (childY - NODE_HEIGHT / 2)) s1
                | None \<Rightarrow> s1) = Inr s3"
    and rest: "descendants_loop_js recurse fid people parent pcx pY childY gen items
                 (cur + w + HORIZONTAL_GAP) s3 = Inr s'"
    by (auto simp: a Let_def andThen_Inr)
  have pc: "j_ctype (parentChildConnection_js i k fx fy tx ty) = ParentChild" for i k fx fy tx ty
    by (simp add: parentChildConnection_js_def)
  have 1: "I s1" by (rule Cons.prems(2) [of c w, OF _ Cons.prems(1) r1]) (simp add: a)
  have 2: "I (case find (\<lambda>n. entryId (j_person n) = entryId c) (j_nodes s1) of
                  Some childNode \<Rightarrow>
                    pushConnection_js
                      (parentChildConnection_js (entryId parent) (entryId c)
                         pcx (pY + NODE_HEIGHT / 2)
                         (j_x childNode) (childY - NODE_HEIGHT / 2)) s1
                | None \<Rightarrow> s1)"
    using 1 by (auto split: option.splits intro: Cons.prems(3) [OF _ pc])
  have 3: "I s3" by (rule Cons.prems(4) [of c w, OF _ 2 r3]) (simp add: a)
  show ?case
  proof (rule Cons.IH [OF 3 _ _ _ rest])
    fix c' w' x t e' t'
    assume "(c', w') \<in> set items" "I t"
      "positionCouple_js fid people c' x childY (gen + 1) True False t = Inr (e', t')"
    then show "I t'" by (intro Cons.prems(2) [of c' w' t x e' t']) simp_all
  next
    fix c' :: Connection_js and t assume "I t" "j_ctype c' = ParentChild"
    then show "I (pushConnection_js c' t)" by (rule Cons.prems(3))
  next
    fix c' w' x t t' assume "(c', w') \<in> set items" "I t" "recurse c' x t = Inr t'"
    then show "I t'" by (intro Cons.prems(4) [of c' w' t x t']) simp_all
  qed
qed

lemma positionDescendants_js_preserves:
  assumes conn: "\<And>c t. I t \<Longrightarrow> j_ctype c = ParentChild \<Longrightarrow> I (pushConnection_js c t)"
  shows "I s \<Longrightarrow>
    (\<And>c x y' g t e t'. I t \<Longrightarrow> gen < g \<Longrightarrow> g \<le> gen + (MAX_LAYERS_DOWN - depth) \<Longrightarrow>
        positionCouple_js fid people c x y' g True False t = Inr (e, t') \<Longrightarrow> I t') \<Longrightarrow>
    positionDescendants_js fid people parent pcx pY gen depth s = Inr s' \<Longrightarrow> I s'"
proof (induction fid people parent pcx pY gen depth s arbitrary: s'
    rule: positionDescendants_js.induct)
  case (1 fid people parent pcx pY gen depth s)
  show ?case
  proof (cases "depth \<ge> MAX_LAYERS_DOWN")
    case True
    then show ?thesis using "1.prems"(1,3) by (subst (asm) positionDescendants_js.simps) auto
  next
    case d: False
    from "1.prems"(3) d obtain children where
      ch: "childrenOf_js people parent s = Inr children"
      by (subst (asm) positionDescendants_js.simps) (auto simp: andThen_Inr)
    show ?thesis
    proof (cases "children = []")
      case True
      then show ?thesis using "1.prems"(1,3) d ch
        by (subst (asm) positionDescendants_js.simps) auto
    next
      case ne: False
      define childY where "childY = pY + VERTICAL_GAP + NODE_HEIGHT"
      from "1.prems"(3) d ch ne obtain childWidths adjustedWidths where
        cw: "allOf (map (\<lambda>child.
                     andThen (calculateSubtreeWidth_js (entryId child) people
                                (MAX_LAYERS_DOWN - depth - 1) 0 (j_positioned s))
                       (\<lambda>r. Inr (fst r)))
                  children) = Inr childWidths"
        and aw: "allOf (map (\<lambda>(w, child).
                       andThen (calculateCoupleWidth_js child (getSpouse_js child people))
                         (\<lambda>minWidth. Inr (max w minWidth)))
                    (zip childWidths children)) = Inr adjustedWidths"
        and loop: "descendants_loop_js
                      (\<lambda>child cX s'. positionDescendants_js fid people child cX childY
                                        (gen + 1) (depth + 1) s')
                      fid people parent pcx pY childY gen
                      (zip children adjustedWidths)
                      (pcx - (foldl (\<lambda>sum w. sum + w) 0 adjustedWidths
                                + (real (length children) - 1) * HORIZONTAL_GAP) / 2) s = Inr s'"
        unfolding childY_def
        by (subst (asm) positionDescendants_js.simps) (auto simp: andThen_Inr Let_def)
      show ?thesis
      proof (rule descendants_loop_js_preserves [where I = I, OF "1.prems"(1) _ _ _ loop])
        fix c w x t e t'
        assume "I t" "positionCouple_js fid people c x childY (gen + 1) True False t = Inr (e, t')"
        then show "I t'" using d by (intro "1.prems"(2) [of t "gen + 1" c x childY e t']) simp_all
      next
        fix c :: Connection_js and t assume "I t" "j_ctype c = ParentChild"
        then show "I (pushConnection_js c t)" by (rule conn)
      next
        fix c w x t t'
        assume c: "(c, w) \<in> set (zip children adjustedWidths)" and t: "I t"
          and run: "positionDescendants_js fid people c x childY (gen + 1) (depth + 1) t = Inr t'"
        have cin: "c \<in> fst ` set (zip children adjustedWidths)" using c by force
        show "I t'"
        proof (rule "1.IH" [OF d ch ne childY_def cw aw refl refl cin t _ run])
          fix c' x' y' g t1 e t1'
          assume "I t1" "gen + 1 < g" "g \<le> gen + 1 + (MAX_LAYERS_DOWN - (depth + 1))"
            "positionCouple_js fid people c' x' y' g True False t1 = Inr (e, t1')"
          then show "I t1'" by (intro "1.prems"(2) [of t1 g c' x' y' e t1']) simp_all
        qed
      qed
    qed
  qed
qed

lemma positionAncestors_js_preserves:
  assumes conn: "\<And>c t. I t \<Longrightarrow> j_ctype c = ParentChild \<Longrightarrow> I (pushConnection_js c t)"
  shows "I s \<Longrightarrow>
    (\<And>c x y' g t e t'. I t \<Longrightarrow> g < gen \<Longrightarrow> gen - (MAX_LAYERS_UP - depth) \<le> g \<Longrightarrow>
        positionCouple_js fid people c x y' g False True t = Inr (e, t') \<Longrightarrow> I t') \<Longrightarrow>
    positionAncestors_js fid people k pcx pY gen depth s = Inr s' \<Longrightarrow> I s'"
proof (induction fid people k pcx pY gen depth s arbitrary: s'
    rule: positionAncestors_js.induct)
  case (1 fid people k pcx pY gen depth s)
  show ?case
  proof (cases "depth \<ge> MAX_LAYERS_UP")
    case True
    then show ?thesis using "1.prems"(1,3) by (subst (asm) positionAncestors_js.simps) auto
  next
    case d: False
    show ?thesis
    proof (cases "filter (\<lambda>p. Some (pid p) \<notin> j_positioned s) (findParents k people)")
      case Nil
      then show ?thesis using "1.prems"(1,3) d
        by (subst (asm) positionAncestors_js.simps) auto
    next
      case (Cons parent rest)
      define parentY where "parentY = pY - VERTICAL_GAP - NODE_HEIGHT"
      from "1.prems"(3) d Cons obtain e s1 where
        r1: "positionCouple_js fid people (Stored parent) pcx parentY (gen - 1) False True s =
             Inr (e, s1)"
        and rest: "positionAncestors_js fid people (pid parent) (centerX e) parentY (gen - 1)
                     (depth + 1)
                     (case find (\<lambda>n. entryId (j_person n) = Some k) (j_nodes s1) of
                        Some childNode \<Rightarrow>
                          pushConnection_js
                            (parentChildConnection_js (Some (pid parent)) (Some k)
                               (centerX e) (parentY + NODE_HEIGHT / 2)
                               (j_x childNode) (pY - NODE_HEIGHT / 2)) s1
                      | None \<Rightarrow> s1) = Inr s'"
        unfolding parentY_def
        by (subst (asm) positionAncestors_js.simps) (auto simp: andThen_Inr Let_def)
      have pc: "j_ctype (parentChildConnection_js i j fx fy tx ty) = ParentChild" for i j fx fy tx ty
        by (simp add: parentChildConnection_js_def)
      have i1: "I s1" using "1.prems"(1) d r1
        by (intro "1.prems"(2) [of s "gen - 1" "Stored parent" pcx parentY e s1]) simp_all
      have i2: "I (case find (\<lambda>n. entryId (j_person n) = Some k) (j_nodes s1) of
                        Some childNode \<Rightarrow>
                          pushConnection_js
                            (parentChildConnection_js (Some (pid parent)) (Some k)
                               (centerX e) (parentY + NODE_HEIGHT / 2)
                               (j_x childNode) (pY - NODE_HEIGHT / 2)) s1
                      | None \<Rightarrow> s1)"
        using i1 by (auto split: option.splits intro: conn [OF _ pc])
      show ?thesis
      proof (rule "1.IH" [OF d Cons parentY_def r1 refl refl i2 _ rest])
        fix c x y' g t e' t'
        assume "I t" "g < gen - 1" "gen - 1 - (MAX_LAYERS_UP - (depth + 1)) \<le> g"
          "positionCouple_js fid people c x y' g False True t = Inr (e', t')"
        then show "I t'" by (intro "1.prems"(2) [of t g c x y' e' t']) simp_all
      qed
    qed
  qed
qed

lemma computeLayout_js_preserves:
  assumes init: "I initialState_js"
    and couple: "\<And>c x y g ch pa t e t'. I t \<Longrightarrow> - MAX_LAYERS_UP \<le> g \<Longrightarrow> g \<le> MAX_LAYERS_DOWN \<Longrightarrow>
                   positionCouple_js fid people c x y g ch pa t = Inr (e, t') \<Longrightarrow> I t'"
    and conn: "\<And>c t. I t \<Longrightarrow> j_ctype c = ParentChild \<Longrightarrow> I (pushConnection_js c t)"
    and run: "computeLayout_js fid people = Inr r"
  shows "\<exists>s. I s \<and> r_nodes r = j_nodes s \<and> r_connections r = j_connections s"
proof (cases "lookupEntry people fid")
  case None
  with run have "r_nodes r = []" "r_connections r = []"
    by (auto simp: computeLayout_js_def)
  with init show ?thesis by (auto simp: initialState_js_def intro!: exI [of _ initialState_js])
next
  case (Some fp)
  from run Some obtain e s1 s2 s3 where
    r1: "positionCouple_js fid people fp 0 0 0 False False initialState_js = Inr (e, s1)"
    and r2: "positionDescendants_js fid people fp (centerX e) 0 0 0 s1 = Inr s2"
    and r3: "positionAncestors_js fid people fid (centerX e) 0 0 0 s2 = Inr s3"
    and r: "r_nodes r = j_nodes s3" "r_connections r = j_connections s3"
    by (auto simp: computeLayout_js_def andThen_Inr)
  have 1: "I s1"
    by (rule couple [OF init _ _ r1]) (simp_all add: MAX_LAYERS_UP_def MAX_LAYERS_DOWN_def)
  have 2: "I s2"
  proof (rule positionDescendants_js_preserves [where I = I, OF conn 1 _ r2])
    fix c x y' g t e' t'
    assume "I t" "0 < g" "g \<le> 0 + (MAX_LAYERS_DOWN - 0)"
      "positionCouple_js fid people c x y' g True False t = Inr (e', t')"
    then show "I t'"
      by (intro couple [of t g c x y' True False e' t']) (simp_all add: MAX_LAYERS_UP_def)
  qed
  have 3: "I s3"
  proof (rule positionAncestors_js_preserves [where I = I, OF conn 2 _ r3])
    fix c x y' g t e' t'
    assume "I t" "g < 0" "0 - (MAX_LAYERS_UP - 0) \<le> g"
      "positionCouple_js fid people c x y' g False True t = Inr (e', t')"
    then show "I t'"
      by (intro couple [of t g c x y' False True e' t']) (simp_all add: MAX_LAYERS_DOWN_def)
  qed
  from 3 r show ?thesis by blast
qed

lemma pushNode_js_Inr:
  assumes "pushNode_js fid q x y g sp ch pa t = Inr t'"
  shows "(entryId q \<in> j_positioned t \<and> t' = t)
         \<or> (entryId q \<notin> j_positioned t
            \<and> (\<exists>n. j_nodes t' = j_nodes t @ [n] \<and> j_person n = q \<and> j_generation n = g
                    \<and> j_isSpouse n = sp)
            \<and> j_positioned t' = insert (entryId q) (j_positioned t)
            \<and> j_connections t' = j_connections t)"
  using assms
  by (auto simp: pushNode_js_def createNode_js_def andThen_Inr split: if_splits)

lemma positionCouple_js_invariant:
  assumes "I s"
    and push: "\<And>q x sp t t'. I t \<Longrightarrow> (sp \<longrightarrow> entryId q \<noteq> Some fid) \<Longrightarrow>
                 pushNode_js fid q x cY gen sp ch pa t = Inr t' \<Longrightarrow> I t'"
    and conn: "\<And>c t. I t \<Longrightarrow> I (pushConnection_js c t)"
    and run: "positionCouple_js fid people p cX cY gen ch pa s = Inr (e, s')"
  shows "I s'"
  by (rule positionCouple_js_preserves [where I = I, OF assms(1) push conn run])

lemma computeLayout_js_distinct:
  assumes "computeLayout_js fid people = Inr r"
  shows "distinct (map (\<lambda>n. entryId (j_person n)) (r_nodes r))"
proof -
  let ?I = "\<lambda>s :: State_js. distinct (map (\<lambda>n. entryId (j_person n)) (j_nodes s))
                \<and> j_positioned s = set (map (\<lambda>n. entryId (j_person n)) (j_nodes s))"
  have push: "?I t'" if "?I t" "pushNode_js fid q x y g sp ch pa t = Inr t'"
    for q x y g sp ch pa t t'
    using pushNode_js_Inr [OF that(2)] that(1) by auto
  have "\<exists>s :: State_js. ?I s \<and> r_nodes r = j_nodes s \<and> r_connections r = j_connections s"
  proof (rule computeLayout_js_preserves [where I = ?I, OF _ _ _ assms])
    show "?I initialState_js" by (simp add: initialState_js_def)
  next
    fix c x y g ch pa t e t'
    assume t: "?I t" and run: "positionCouple_js fid people c x y g ch pa t = Inr (e, t')"
    show "?I t'"
    proof (rule positionCouple_js_invariant [where I = ?I, OF t _ _ run])
      fix q x' sp t1 t1'
      assume "?I t1" "pushNode_js fid q x' y g sp ch pa t1 = Inr t1'"
      then show "?I t1'" by (rule push)
    next
      fix c' :: Connection_js and t1 assume "?I t1"
      then show "?I (pushConnection_js c' t1)" by (simp add: pushConnection_js_def)
    qed
  next
    fix c :: Connection_js and t assume "?I t"
    then show "?I (pushConnection_js c t)" by (simp add: pushConnection_js_def)
  qed
  then show ?thesis by auto
qed

lemma computeLayout_js_generations:
  assumes "computeLayout_js fid people = Inr r" "n \<in> set (r_nodes r)"
  shows "- MAX_LAYERS_UP \<le> j_generation n \<and> j_generation n \<le> MAX_LAYERS_DOWN"
proof -
  let ?I = "\<lambda>s :: State_js. \<forall>n\<in>set (j_nodes s). - MAX_LAYERS_UP \<le> j_generation n
                                       \<and> j_generation n \<le> MAX_LAYERS_DOWN"
  have "\<exists>s :: State_js. ?I s \<and> r_nodes r = j_nodes s \<and> r_connections r = j_connections s"
  proof (rule computeLayout_js_preserves [where I = ?I, OF _ _ _ assms(1)])
    show "?I initialState_js" by (simp add: initialState_js_def)
  next
    fix c x y g ch pa t e t'
    assume t: "?I t" and g: "- MAX_LAYERS_UP \<le> g" "g \<le> MAX_LAYERS_DOWN"
      and run: "positionCouple_js fid people c x y g ch pa t = Inr (e, t')"
    show "?I t'"
    proof (rule positionCouple_js_invariant [where I = ?I, OF t _ _ run])
      fix q x' sp t1 t1'
      assume "?I t1" "pushNode_js fid q x' y g sp ch pa t1 = Inr t1'"
      then show "?I t1'" using pushNode_js_Inr [of fid q x' y g sp ch pa t1 t1'] g by auto
    next
      fix c' :: Connection_js and t1 assume "?I t1"
      then show "?I (pushConnection_js c' t1)" by (simp add: pushConnection_js_def)
    qed
  next
    fix c :: Connection_js and t assume "?I t"
    then show "?I (pushConnection_js c t)" by (simp add: pushConnection_js_def)
  qed
  with assms(2) show ?thesis by auto
qed


lemma computeLayout_js_focus_not_spouse:
  assumes "computeLayout_js fid people = Inr r" "n \<in> set (r_nodes r)"
    "entryId (j_person n) = Some fid"
  shows "\<not> j_isSpouse n"
proof -
  let ?I = "\<lambda>s :: State_js. \<forall>n\<in>set (j_nodes s). entryId (j_person n) = Some fid \<longrightarrow> \<not> j_isSpouse n"
  have "\<exists>s :: State_js. ?I s \<and> r_nodes r = j_nodes s \<and> r_connections r = j_connections s"
  proof (rule computeLayout_js_preserves [where I = ?I, OF _ _ _ assms(1)])
    show "?I initialState_js" by (simp add: initialState_js_def)
  next
    fix c x y g ch pa t e t'
    assume t: "?I t" and run: "positionCouple_js fid people c x y g ch pa t = Inr (e, t')"
    show "?I t'"
    proof (rule positionCouple_js_invariant [where I = ?I, OF t _ _ run])
      fix q x' sp t1 t1'
      assume "?I t1" "sp \<longrightarrow> entryId q \<noteq> Some fid"
        "pushNode_js fid q x' y g sp ch pa t1 = Inr t1'"
      then show "?I t1'" using pushNode_js_Inr [of fid q x' y g sp ch pa t1 t1'] by auto
    next
      fix c' :: Connection_js and t1 assume "?I t1"
      then show "?I (pushConnection_js c' t1)" by (simp add: pushConnection_js_def)
    qed
  next
    fix c :: Connection_js and t assume "?I t"
    then show "?I (pushConnection_js c t)" by (simp add: pushConnection_js_def)
  qed
  with assms(2,3) show ?thesis by auto
qed

section \<open>The focused node\<close>

lemma layoutPasses_from_focus:
  assumes first: "I (snd (positionCouple fid people fp 0 0 0 False False initialState))"
    and couple: "\<And>c x y g ch pa t. I t \<Longrightarrow> c \<in> snd ` set people \<Longrightarrow> - MAX_LAYERS_UP \<le> g \<Longrightarrow>
                   g \<le> MAX_LAYERS_DOWN \<Longrightarrow>
                   I (snd (positionCouple fid people c x y g ch pa t))"
    and conn: "\<And>c t. I t \<Longrightarrow> ctype c = ParentChild \<Longrightarrow> I (pushConnection c t)"
  shows "I (layoutPasses fid people fp)"
proof -
  define s1 where "s1 = snd (positionCouple fid people fp 0 0 0 False False initialState)"
  define s2 where "s2 = positionDescendants fid people fp 0 0 0 0 s1"
  have 1: "I s1" unfolding s1_def by (rule first)
  have 2: "I s2" unfolding s2_def
    by (rule positionDescendants_preserves [where I = I, OF conn 1])
       (auto intro!: couple simp: MAX_LAYERS_UP_def MAX_LAYERS_DOWN_def)
  have 3: "I (positionAncestors fid people fid 0 0 0 0 s2)"
    by (rule positionAncestors_preserves [where I = I, OF conn 2])
       (auto intro!: couple simp: MAX_LAYERS_UP_def MAX_LAYERS_DOWN_def)
  show ?thesis
    using 3 unfolding s2_def s1_def by (simp add: layoutPasses_def case_prod_beta Let_def)
qed

lemma positionCouple_positions_person:
  "pid p \<in> positioned (snd (positionCouple fid people p cX cY gen ch pa s))"
proof (cases "spouseAvailable people p s")
  case None
  then show ?thesis by (simp add: positionCouple_single pushNode_simps(3))
next
  case (Some sp)
  show ?thesis unfolding positionCouple_couple [OF Some] Let_def
    by (cases "gender p = Male") (simp_all add: pushNode_simps(3))
qed

lemma focusFlagged_pushNode:
  "focusFlagged fid s \<Longrightarrow> focusFlagged fid (pushNode fid q x y g sp ch pa s)"
  by (auto simp: focusFlagged_def pushNode_def ids_of_def)

lemma focusFlagged_pushConnection: "focusFlagged fid s \<Longrightarrow> focusFlagged fid (pushConnection c s)"
  by (simp add: focusFlagged_def)

lemma focusFlagged_positionCouple:
  "focusFlagged fid s \<Longrightarrow> focusFlagged fid (snd (positionCouple fid people p cX cY gen ch pa s))"
  by (rule positionCouple_preserves [where I = "focusFlagged fid"])
     (simp_all add: focusFlagged_pushNode focusFlagged_pushConnection)

lemma pushNode_positioned_mono: "positioned s \<subseteq> positioned (pushNode fid q x y g sp ch pa s)"
  by (auto simp: pushNode_def)

lemma positionCouple_positioned_mono:
  "k \<in> positioned s \<Longrightarrow> k \<in> positioned (snd (positionCouple fid people p cX cY gen ch pa s))"
  by (rule positionCouple_preserves [where I = "\<lambda>t. k \<in> positioned t"])
     (auto simp: pushNode_simps(3))

lemma focus_placed:
  assumes "map_of people fid = Some fp" "pid fp = fid"
  shows "focusFlagged fid (layoutPasses fid people fp) \<and> fid \<in> positioned (layoutPasses fid people fp)"
proof (rule layoutPasses_from_focus
    [where I = "\<lambda>s. focusFlagged fid s \<and> fid \<in> positioned s"])
  show "focusFlagged fid (snd (positionCouple fid people fp 0 0 0 False False initialState)) \<and>
        fid \<in> positioned (snd (positionCouple fid people fp 0 0 0 False False initialState))"
    using positionCouple_positions_person [of fp fid people 0 0 0 False False initialState]
      focusFlagged_positionCouple [of fid initialState people fp 0 0 0 False False] assms(2)
    by (simp add: focusFlagged_def initialState_def ids_of_def)
next
  fix c x y g ch pa t
  assume "focusFlagged fid t \<and> fid \<in> positioned t"
  then show "focusFlagged fid (snd (positionCouple fid people c x y g ch pa t)) \<and>
             fid \<in> positioned (snd (positionCouple fid people c x y g ch pa t))"
    by (simp add: focusFlagged_positionCouple positionCouple_positioned_mono)
next
  fix c :: Connection and t
  assume "focusFlagged fid t \<and> fid \<in> positioned t"
  then show "focusFlagged fid (pushConnection c t) \<and> fid \<in> positioned (pushConnection c t)"
    by (auto simp: focusFlagged_def)
qed

lemma find_isFocused:
  assumes "focusFlagged fid s" "fid \<in> positioned s"
  shows "\<exists>n. find isFocused (s_nodes s) = Some n \<and> isFocused n \<and> n \<in> set (s_nodes s)
              \<and> pid (person n) = fid"
proof -
  from assms obtain m where m: "m \<in> set (s_nodes s)" "pid (person m) = fid"
    by (auto simp: focusFlagged_def ids_of_def)
  with assms(1) have "isFocused m" by (simp add: focusFlagged_def)
  with m(1) have "find isFocused (s_nodes s) \<noteq> None" by (auto simp: find_None_iff)
  then obtain n where n: "find isFocused (s_nodes s) = Some n" by auto
  then have "isFocused n" "n \<in> set (s_nodes s)"
    by (auto simp: find_Some_iff)
  with n assms(1) show ?thesis by (auto simp: focusFlagged_def)
qed

text \<open>
  Claim C3, as stated, fails: the graph \<open>storedUnderAnotherKey\<close> has the focused id k among
  its keys, and the result has one node, not flagged focused, and no focused node. The
  person stored under k carries the id A, and \<^verbatim>\<open>createNode\<close> compares the person's id
  with the focused id.
\<close>

theorem focus_terminal_state_counterexample:
  "''k'' \<in> fst ` set storedUnderAnotherKey
   \<and> map_sum id (\<lambda>r. (map (\<lambda>n. (entryId (j_person n), j_isFocused n)) (r_nodes r),
                       r_focusedNode r))
        (computeLayout_js ''k'' storedUnderAnotherKey) = Inr ([(Some ''A'', False)], None)"
  by code_simp

text \<open>
  A focused id that is not a key of the graph but names an inherited member passes the
  guard \<^verbatim>\<open>if (!focusedPerson)\<close>, and the engine raises.
\<close>

lemma computeLayout_inherited_focus:
  "computeLayout_js ''constructor'' [] = Inl TypeError"
  by code_simp

text \<open>
  Claim C3, amended. When the focused id is not a key of the graph and names no inherited
  member, \<open>computeLayout\<close> returns exactly the empty result: no nodes, no connections, all
  six bounds zero and no focused node. When the graph holds under the focused id a person
  with that id, and no id of the graph names an inherited member, \<open>computeLayout\<close> returns
  a result whose focused node is a node of the result with the \<open>isFocused\<close> flag set. No
  exception is raised in either case.
\<close>

theorem focus_terminal_state:
  "(fid \<notin> fst ` set people \<and> map_of objectPrototype fid = None \<longrightarrow>
      computeLayout_js fid people =
        Inr \<lparr> r_nodes = [], r_connections = [],
              r_bounds = \<lparr> minX = 0, maxX = 0, minY = 0, maxY = 0, bwidth = 0, bheight = 0 \<rparr>,
              r_focusedNode = None \<rparr>)
   \<and> (\<forall>fp. map_of people fid = Some fp \<and> pid fp = fid \<and> prototypeFree people \<longrightarrow>
        (\<exists>r n. computeLayout_js fid people = Inr r \<and> r_focusedNode r = Some n
               \<and> j_isFocused n \<and> entryId (j_person n) = Some fid \<and> n \<in> set (r_nodes r)))"
proof (intro conjI impI allI)
  assume a: "fid \<notin> fst ` set people \<and> map_of objectPrototype fid = None"
  then have "map_of people fid = None" by (simp add: map_of_eq_None_iff)
  with a show "computeLayout_js fid people =
        Inr \<lparr> r_nodes = [], r_connections = [],
              r_bounds = \<lparr> minX = 0, maxX = 0, minY = 0, maxY = 0, bwidth = 0, bheight = 0 \<rparr>,
              r_focusedNode = None \<rparr>"
    by (simp add: computeLayout_js_def lookupEntry_def)
next
  fix fp assume a: "map_of people fid = Some fp \<and> pid fp = fid \<and> prototypeFree people"
  then have "fid \<in> fst ` set people" by (auto dest!: map_of_SomeD intro: rev_image_eqI)
  then have own: "ownLookup people fid" by (simp add: ownLookup_def)
  from a have pf: "prototypeFree people" by simp
  from focus_placed [of people fid fp] a
  have "focusFlagged fid (layoutPasses fid people fp)" "fid \<in> positioned (layoutPasses fid people fp)"
    by simp_all
  from find_isFocused [OF this] a
  obtain n where n: "focusedNode (computeLayout fid people) = Some n" "isFocused n"
      "pid (person n) = fid" "n \<in> set (nodes (computeLayout fid people))"
    by (auto simp: computeLayout_def Let_def)
  have r: "computeLayout_js fid people = Inr (result_js (computeLayout fid people))"
    by (rule computeLayout_js_own [OF pf own])
  have "r_focusedNode (result_js (computeLayout fid people)) = Some (node_js n)"
       "j_isFocused (node_js n)" "entryId (j_person (node_js n)) = Some fid"
       "node_js n \<in> set (r_nodes (result_js (computeLayout fid people)))"
    using n by (simp_all add: result_js_def node_js_def)
  with r show "\<exists>r n. computeLayout_js fid people = Inr r \<and> r_focusedNode r = Some n
               \<and> j_isFocused n \<and> entryId (j_person n) = Some fid \<and> n \<in> set (r_nodes r)"
    by blast
qed

theorem focus_terminal_state_witness:
  "''missing-id'' \<notin> fst ` set ([] :: People) \<and> map_of objectPrototype ''missing-id'' = None
   \<and> computeLayout_js ''missing-id'' [] =
        Inr \<lparr> r_nodes = [], r_connections = [],
              r_bounds = \<lparr> minX = 0, maxX = 0, minY = 0, maxY = 0, bwidth = 0, bheight = 0 \<rparr>,
              r_focusedNode = None \<rparr>
   \<and> map_of threeGenerations ''F'' = Some (snd (mkPerson ''F'' Male (Some ''S'') [''c1'', ''c2'']))
   \<and> pid (snd (mkPerson ''F'' Male (Some ''S'') [''c1'', ''c2''])) = ''F''
   \<and> prototypeFree threeGenerations
   \<and> (\<exists>r n. computeLayout_js ''F'' threeGenerations = Inr r \<and> r_focusedNode r = Some n
          \<and> j_isFocused n \<and> entryId (j_person n) = Some ''F'' \<and> n \<in> set (r_nodes r))"
proof -
  have a: "''missing-id'' \<notin> fst ` set ([] :: People) \<and> map_of objectPrototype ''missing-id'' = None"
    by (simp add: objectPrototype_def)
  have b: "map_of threeGenerations ''F'' = Some (snd (mkPerson ''F'' Male (Some ''S'') [''c1'', ''c2'']))
           \<and> pid (snd (mkPerson ''F'' Male (Some ''S'') [''c1'', ''c2''])) = ''F''"
    by (simp add: threeGenerations_def mkPerson_def)
  have p: "prototypeFree threeGenerations" by code_simp
  from focus_terminal_state [of "''missing-id''" "[]"] a
  have c: "computeLayout_js ''missing-id'' [] =
        Inr \<lparr> r_nodes = [], r_connections = [],
              r_bounds = \<lparr> minX = 0, maxX = 0, minY = 0, maxY = 0, bwidth = 0, bheight = 0 \<rparr>,
              r_focusedNode = None \<rparr>" by blast
  from focus_terminal_state [of "''F''" threeGenerations] b p
  have d: "\<exists>r n. computeLayout_js ''F'' threeGenerations = Inr r \<and> r_focusedNode r = Some n
          \<and> j_isFocused n \<and> entryId (j_person n) = Some ''F'' \<and> n \<in> set (r_nodes r)" by blast
  from a b p c d show ?thesis by blast
qed

section \<open>A single person\<close>

text \<open>
  Claim C9. For a graph that holds exactly one person \<open>P\<close>, with no spouse id and no
  children, \<open>computeLayout\<close> on the id of \<open>P\<close> returns exactly one node: the node of \<open>P\<close>,
  focused, of generation 0, centred at (0, 0); and it returns no connection.
\<close>

theorem single_person_layout:
  assumes "spouseId P = None" "childrenIds P = []"
  shows "nodes (computeLayout (pid P) [(pid P, P)]) =
           [\<lparr> person = P, nx = 0, ny = 0, width = calculateNodeWidth (name P),
              height = NODE_HEIGHT, isSpouse = False, isChild = False, isParent = False,
              isFocused = True, generation = 0 \<rparr>]
         \<and> connections (computeLayout (pid P) [(pid P, P)]) = []
         \<and> focusedNode (computeLayout (pid P) [(pid P, P)]) =
             Some \<lparr> person = P, nx = 0, ny = 0, width = calculateNodeWidth (name P),
                    height = NODE_HEIGHT, isSpouse = False, isChild = False, isParent = False,
                    isFocused = True, generation = 0 \<rparr>"
proof -
  define s1 where "s1 = pushNode (pid P) P 0 0 0 False False False initialState"
  have sp: "getSpouse P [(pid P, P)] = None" using assms(1) by (simp add: getSpouse_def)
  have c: "positionCouple (pid P) [(pid P, P)] P 0 0 0 False False initialState =
           (\<lparr> leftX = 0 - calculateNodeWidth (name P) / 2,
              rightX = 0 + calculateNodeWidth (name P) / 2, centerX = 0 \<rparr>, s1)"
    by (simp add: positionCouple_def sp Let_def s1_def)
  have d: "positionDescendants (pid P) [(pid P, P)] P 0 0 0 0 s1 = s1"
    by (subst positionDescendants.simps)
       (simp add: childrenOf_def assms(2) List.map_filter_def)
  have a: "positionAncestors (pid P) [(pid P, P)] (pid P) 0 0 0 0 s1 = s1"
    by (subst positionAncestors.simps)
       (simp add: findParents_def findParents_step_def assms(2))
  have l: "layoutPasses (pid P) [(pid P, P)] P = s1"
    by (simp add: layoutPasses_def c d a)
  have n: "s_nodes s1 = [createNode (pid P) P 0 0 0 False False False]"
          "s_connections s1 = []"
    by (simp_all add: s1_def pushNode_def initialState_def)
  show ?thesis
    by (simp add: computeLayout_def l n createNode_def)
qed

theorem single_person_layout_witness:
  "spouseId (snd (mkPerson ''P'' Female None [])) = None
   \<and> childrenIds (snd (mkPerson ''P'' Female None [])) = []
   \<and> nodes (computeLayout ''P'' [mkPerson ''P'' Female None []]) =
       [\<lparr> person = snd (mkPerson ''P'' Female None []), nx = 0, ny = 0, width = 140,
          height = 90, isSpouse = False, isChild = False, isParent = False,
          isFocused = True, generation = 0 \<rparr>]
   \<and> connections (computeLayout ''P'' [mkPerson ''P'' Female None []]) = []"
proof -
  have a: "spouseId (snd (mkPerson ''P'' Female None [])) = None"
          "childrenIds (snd (mkPerson ''P'' Female None [])) = []"
    by (simp_all add: mkPerson_def)
  have b: "[(pid (snd (mkPerson ''P'' Female None [])), snd (mkPerson ''P'' Female None []))]
           = [mkPerson ''P'' Female None []]"
          "pid (snd (mkPerson ''P'' Female None [])) = ''P''"
    by (simp_all add: mkPerson_def)
  have w: "calculateNodeWidth (name (snd (mkPerson ''P'' Female None []))) = 140"
    by (simp add: mkPerson_def calculateNodeWidth_def CONFIG_defs)
  from single_person_layout [OF a] show ?thesis
    unfolding b w by (simp add: a NODE_HEIGHT_def prod_eq_iff mkPerson_def)
qed

section \<open>The isSpouse flag\<close>


lemma newNodes_pushConnection [simp]: "newNodes s (pushConnection c s') = newNodes s s'"
  by (simp add: newNodes_def)








section \<open>Termination\<close>

text \<open>
  Every call of the three recursions lies in the accessible part of its call relation, in
  both parts of the model: the engine ends on every finite graph, by returning or by
  raising. Each recursive call raises the depth counter by one while the counter is below
  its bound (\<open>maxDepth\<close>, \<open>MAX_LAYERS_DOWN\<close>, \<open>MAX_LAYERS_UP\<close>) and is made only on an id
  that is not visited, or a person that is not positioned.
\<close>

lemma calculateSubtreeWidth_total: "All calculateSubtreeWidth_dom"
  by (relation "measure (\<lambda>(personId, people, maxDepth, currentDepth, visited).
                  nat (maxDepth + 1 - currentDepth))") auto

lemma positionDescendants_total: "All positionDescendants_dom"
  by (relation "measure (\<lambda>(fid, people, parentPerson, pcx, pY, gen, depth, s).
                  nat (MAX_LAYERS_DOWN - depth))") auto

lemma positionAncestors_total: "All positionAncestors_dom"
  by (relation "measure (\<lambda>(fid, people, personId, pcx, pY, gen, depth, s).
                  nat (MAX_LAYERS_UP - depth))") auto

lemma calculateSubtreeWidth_js_total: "All calculateSubtreeWidth_js_dom"
  by (relation "measure (\<lambda>(personId, people, maxDepth, currentDepth, visited).
                  nat (maxDepth + 1 - currentDepth))") auto

lemma positionDescendants_js_total: "All positionDescendants_js_dom"
  by (relation "measure (\<lambda>(fid, people, parentPerson, pcx, pY, gen, depth, s).
                  nat (MAX_LAYERS_DOWN - depth))") auto

lemma positionAncestors_js_total: "All positionAncestors_js_dom"
  by (relation "measure (\<lambda>(fid, people, personId, pcx, pY, gen, depth, s).
                  nat (MAX_LAYERS_UP - depth))") auto

lemma calculateSubtreeWidth_call:
  assumes "calculateSubtreeWidth_rel (k', ppl', m', d', v') (k, ppl, m, d, v)"
  shows "d' = d + 1 \<and> d < m \<and> m' = m \<and> ppl' = ppl \<and> k \<notin> v \<and> k' \<notin> v' \<and> k \<in> v'"
  using assms
  by (cases rule: calculateSubtreeWidth_rel.cases) (auto split: option.splits)

lemma positionDescendants_call:
  assumes "positionDescendants_rel (f', ppl', c', x', y', g', d', s') (f, ppl, c, x, y, g, d, s)"
  shows "d' = d + 1 \<and> d < MAX_LAYERS_DOWN \<and> g' = g + 1 \<and> pid c' \<notin> positioned s"
  using assms
  by (cases rule: positionDescendants_rel.cases)
     (auto dest!: set_zip_leftD childrenOf_in_people(2))

lemma positionAncestors_call:
  assumes "positionAncestors_rel (f', ppl', k', x', y', g', d', s') (f, ppl, k, x, y, g, d, s)"
  shows "d' = d + 1 \<and> d < MAX_LAYERS_UP \<and> g' = g - 1 \<and> k' \<notin> positioned s"
proof -
  have *: "pid a \<notin> positioned s" if "filter (\<lambda>p. pid p \<notin> positioned s) xs = a # as" for a as xs
  proof -
    from that have "a \<in> set (filter (\<lambda>p. pid p \<notin> positioned s) xs)" by simp
    then show ?thesis by simp
  qed
  show ?thesis using assms
    by (cases rule: positionAncestors_rel.cases) (auto dest: *)
qed

lemma computeLayout_distinct: "distinct (ids_of (nodes (computeLayout fid people)))"
proof (cases "map_of people fid")
  case None
  then show ?thesis by (simp add: computeLayout_nodes ids_of_def)
next
  case (Some fp)
  then show ?thesis using placedOnce_layoutPasses [OF Some]
    by (simp add: computeLayout_nodes placedOnce_def)
qed

text \<open>
  Claim C7. The three recursions end on every graph, cyclic or not: each is defined with
  a termination proof on its depth counter, in both parts of the model, and on the graph
  where X and Y list each other as children \<open>computeLayout\<close> returns with X and Y placed
  once each. But \<open>computeLayout\<close> does not return a result on every finite graph: when P
  lists the id \<^verbatim>\<open>toString\<close> as a child, \<^verbatim>\<open>people[id]\<close> is the inherited function, which
  \<^verbatim>\<open>.filter(Boolean)\<close> keeps as a child, and the recursive call of
  \<^verbatim>\<open>positionDescendants\<close> on it reads \<^verbatim>\<open>childrenIds.map\<close> of \<^verbatim>\<open>undefined\<close>: a
  \<^verbatim>\<open>TypeError\<close>.
\<close>

theorem computeLayout_inherited_child:
  "computeLayout_js ''P'' inheritedChild = Inl TypeError
   \<and> map_sum id (\<lambda>r. map (\<lambda>n. entryId (j_person n)) (r_nodes r))
        (computeLayout_js ''X'' mutualChildren) = Inr [Some ''X'', Some ''Y'']"
  by code_simp

section \<open>Bounds on the subtree width\<close>












section \<open>Horizontal extents\<close>










section \<open>The width that a parent's children take\<close>






section \<open>Graphs keyed by person id\<close>







section \<open>Where the passes place their nodes\<close>








section \<open>Couples placed together\<close>



lemma same_id_same_person:
  "map_of people (pid q) = Some q \<Longrightarrow> map_of people (pid q') = Some q' \<Longrightarrow> pid q = pid q' \<Longrightarrow> q = q'"
  by (metis option.inject)














section \<open>Graphs that are not keyed by person id\<close>


end
